theory Spec2Isabelle
  imports Complex_Main "HOL-Library.Multiset" "HOL-Library.Log_Nat"
begin

section \<open>Python values and library functions used by the sources\<close>

text \<open>
  The three scripts are Python. Strings are \<open>string\<close>, Python integers are \<open>int\<close>,
  \<open>time.time()\<close> and the sleep interval are \<open>real\<close>. The errors that Python itself
  raises on the paths modelled here are values of \<open>py_error\<close>.
\<close>

datatype py_error =
    AttributeError
  | TypeError
  | ValueError
  | OverflowError
  | IsADirectoryError
  | PermissionError

type_synonym timestamp = real

text \<open>\<open>str(n)\<close> for an integer, as the f-strings of \<open>app.py\<close> format it.\<close>

definition digit_char :: "nat \<Rightarrow> char" where
  "digit_char d = ''0123456789'' ! d"

function str_nat :: "nat \<Rightarrow> string" where
  "str_nat n = (if n < 10 then [digit_char n] else str_nat (n div 10) @ [digit_char (n mod 10)])"
  by pat_completeness auto
termination
  by (relation "measure id") auto

definition py_str :: "int \<Rightarrow> string" where
  "py_str i = (if i < 0 then CHR ''-'' # str_nat (nat (- i)) else str_nat (nat i))"

text \<open>
  \<open>posixpath.join(a, *p)\<close>: a component that starts with the separator replaces what
  was joined so far; otherwise it is appended, with a separator unless the path is empty
  or already ends with one.
\<close>

definition join2 :: "string \<Rightarrow> string \<Rightarrow> string" where
  "join2 path b =
     (if b \<noteq> [] \<and> hd b = CHR ''/'' then b
      else if path = [] \<or> last path = CHR ''/'' then path @ b
      else path @ ''/'' @ b)"

definition os_path_join :: "string \<Rightarrow> string list \<Rightarrow> string" where
  "os_path_join a p = foldl join2 a p"

text \<open>
  \<open>posixpath.split\<close>: the tail is what follows the last separator; the head is what
  precedes it, without its trailing separators unless it consists of separators only.
  \<open>basename\<close> is the tail.
\<close>

definition os_path_basename :: "string \<Rightarrow> string" where
  "os_path_basename p = rev (takeWhile (\<lambda>c. c \<noteq> CHR ''/'') (rev p))"

definition rstrip_sep :: "string \<Rightarrow> string" where
  "rstrip_sep p = rev (dropWhile (\<lambda>c. c = CHR ''/'') (rev p))"

definition os_path_split :: "string \<Rightarrow> string \<times> string" where
  "os_path_split p =
     (let tail = os_path_basename p;
          head = take (length p - length tail) p
      in (if head \<noteq> [] \<and> \<not> list_all (\<lambda>c. c = CHR ''/'') head then rstrip_sep head else head,
          tail))"

definition os_path_dirname :: "string \<Rightarrow> string" where
  "os_path_dirname p = fst (os_path_split p)"

text \<open>
  \<open>str.rfind\<close> of one character: the last index where it occurs, or -1.
\<close>

definition rfind :: "string \<Rightarrow> char \<Rightarrow> int" where
  "rfind p c =
     (if c \<in> set p then int (length p) - 1 - int (length (takeWhile (\<lambda>d. d \<noteq> c) (rev p)))
      else - 1)"

text \<open>
  \<open>posixpath.splitext\<close> (\<open>genericpath._splitext\<close>): split at the last dot if it comes
  after the last separator and some character of the file name before it is not a dot.
\<close>

definition os_path_splitext :: "string \<Rightarrow> string \<times> string" where
  "os_path_splitext p =
     (let sepIndex = rfind p (CHR ''/'');
          dotIndex = rfind p (CHR ''.'')
      in if dotIndex > sepIndex \<and>
            list_ex (\<lambda>c. c \<noteq> CHR ''.'')
              (take (nat (dotIndex - (sepIndex + 1))) (drop (nat (sepIndex + 1)) p))
         then (take (nat dotIndex) p, drop (nat dotIndex) p)
         else (p, []))"

text \<open>
  A Python \<open>float\<close> is an IEEE double: \<open>Finite m e\<close> stands for \<open>m * 2 ^ e\<close>, beside
  the two infinities and NaN. \<open>make_float m e\<close> is the double nearest to \<open>m * 2 ^ e\<close>:
  the magnitude is cut to 53 bits, and not below the exponent -1074 of the subnormal
  numbers, rounding to nearest with ties to even; what reaches \<open>2 ^ 1024\<close> is infinite.
\<close>

datatype pyfloat = Finite int int | PosInf | NegInf | NaN

definition round_half_even :: "int \<Rightarrow> nat \<Rightarrow> int" where
  "round_half_even a s =
     (let q = a div 2 ^ s; rem = a mod 2 ^ s; half = 2 ^ (s - 1)
      in if s = 0 then a
         else if rem > half \<or> (rem = half \<and> odd q) then q + 1 else q)"

definition finite_or_inf :: "int \<Rightarrow> int \<Rightarrow> pyfloat" where
  "finite_or_inf m e =
     (if m \<noteq> 0 \<and> bitlen \<bar>m\<bar> + e > 1024 then (if m > 0 then PosInf else NegInf)
      else Finite m e)"

definition make_float :: "int \<Rightarrow> int \<Rightarrow> pyfloat" where
  "make_float m e =
     (let a = \<bar>m\<bar>; s = max (bitlen a - 53) (- 1074 - e)
      in if s \<le> 0 then finite_or_inf m e
         else finite_or_inf (sgn m * round_half_even a (nat s)) (e + s))"

text \<open>
  \<open>len(xs) * r\<close> for a float \<open>r\<close>: the length is converted to a float, which raises
  \<open>OverflowError\<close> if it is too large, and the two doubles are multiplied.
\<close>

definition len_times :: "int \<Rightarrow> pyfloat \<Rightarrow> py_error + pyfloat" where
  "len_times n r =
     (case make_float n 0 of
        Finite m1 e1 \<Rightarrow>
          Inr (case r of
                 Finite m2 e2 \<Rightarrow> make_float (m1 * m2) (e1 + e2)
               | PosInf \<Rightarrow> if m1 = 0 then NaN else PosInf
               | NegInf \<Rightarrow> if m1 = 0 then NaN else NegInf
               | NaN \<Rightarrow> NaN)
      | _ \<Rightarrow> Inl OverflowError)"

text \<open>
  \<open>int(x)\<close> of a float truncates towards zero; it raises \<open>OverflowError\<close> on an
  infinity and \<open>ValueError\<close> on NaN.
\<close>

definition py_int :: "pyfloat \<Rightarrow> py_error + int" where
  "py_int x =
     (case x of
        Finite m e \<Rightarrow>
          Inr (if e \<ge> 0 then m * 2 ^ nat e else sgn m * (\<bar>m\<bar> div 2 ^ nat (- e)))
      | PosInf \<Rightarrow> Inl OverflowError
      | NegInf \<Rightarrow> Inl OverflowError
      | NaN \<Rightarrow> Inl ValueError)"

text \<open>The number a finite float stands for.\<close>

definition float_val :: "int \<Rightarrow> int \<Rightarrow> real" where
  "float_val m e = (if e \<ge> 0 then of_int (m * 2 ^ nat e) else of_int m / 2 ^ nat (- e))"

text \<open>
  A slice bound \<open>k\<close> on a list of length \<open>n\<close>: a negative bound counts from the end,
  and both ends are clipped to the list.
\<close>

definition slice_bound :: "nat \<Rightarrow> int \<Rightarrow> nat" where
  "slice_bound n k = (if k < 0 then nat (int n + k) else min n (nat k))"

definition slice_to :: "'a list \<Rightarrow> int \<Rightarrow> 'a list" where
  "slice_to xs k = take (slice_bound (length xs) k) xs"

definition slice_from :: "'a list \<Rightarrow> int \<Rightarrow> 'a list" where
  "slice_from xs k = drop (slice_bound (length xs) k) xs"

text \<open>
  \<open>random.shuffle\<close>: for \<open>i\<close> from the last index down to 1, swap the elements at
  \<open>i\<close> and \<open>j = randbelow(i + 1)\<close>. The random draws are an argument: \<open>rnd i\<close> is
  the draw of the iteration for index \<open>i\<close>, reduced into the range \<open>0..i\<close> that
  \<open>randbelow\<close> guarantees.
\<close>

fun shuffle_loop :: "(nat \<Rightarrow> nat) \<Rightarrow> nat \<Rightarrow> 'a list \<Rightarrow> 'a list" where
  "shuffle_loop rnd 0 xs = xs"
| "shuffle_loop rnd (Suc i) xs =
     (let j = rnd (Suc i) mod (Suc i + 1)
      in shuffle_loop rnd i (xs[Suc i := xs ! j, j := xs ! Suc i]))"

definition random_shuffle :: "(nat \<Rightarrow> nat) \<Rightarrow> 'a list \<Rightarrow> 'a list" where
  "random_shuffle rnd xs = shuffle_loop rnd (length xs - 1) xs"

text \<open>
  The host the scripts run on: the working directory, which paths exist
  (\<open>os.path.exists\<close>) and the entries of a directory (empty when it cannot be listed).
\<close>

record host =
  getcwd :: string
  path_exists :: "string \<Rightarrow> bool"
  listdir :: "string \<Rightarrow> string list"

definition LF :: char where
  "LF = CHR 0x0A"

definition CRLF :: string where
  "CRLF = [CHR 0x0D, CHR 0x0A]"

section \<open>app.py: process-wide state\<close>

text \<open>
  A JSON document as \<open>request.get_json()\<close> returns it. An object keeps its members in
  document order; Python's parser lets the last of several equal keys win. Numbers with
  a fraction are left out: the code treats them as it treats the whole numbers.
\<close>

datatype json =
    JNull
  | JBool bool
  | JInt int
  | JStr string
  | JArr "json list"
  | JObj "(string \<times> json) list"

text \<open>
  One detection box of \<open>results[0].boxes\<close>: \<open>cls\<close> is \<open>int(r.cls)\<close>, the class
  identifier, and \<open>box_id\<close> the track identifier the tracker gave it. \<open>plot\<close> is what
  \<open>results[0].plot()\<close> returns.
\<close>

record box =
  cls :: int
  box_id :: nat

record 'f results =
  boxes :: "box list"
  plot :: 'f

text \<open>
  The module's globals that change or are read later. \<open>model\<close> is the global detector
  object: \<open>model.track(..., persist=True)\<close> keeps its tracker between calls, so a call
  takes the object and returns it updated. \<open>gunny_bag_class_id\<close> is never assigned
  again and is a constant.
\<close>

record 'm app_state =
  MODEL_PATH :: string
  model :: 'm
  total_bags_counted :: int
  detection_history :: "(timestamp \<times> int) list"
  current_video_source :: json

definition gunny_bag_class_id :: int where
  "gunny_bag_class_id = 0"

text \<open>
  What \<open>cv2.VideoCapture\<close> is called with: a device index or a name (URL or file path).
\<close>

datatype capture_arg = CapIndex int | CapName string

text \<open>
  The library calls of \<open>app.py\<close>, whose code is not part of the repository, are
  parameters of the model: OpenCV's image operations (\<open>enhance_contrast\<close> consists of
  them only), the detector's constructor and its tracking call, and the outside world
  behind \<open>cv2.VideoCapture\<close>, which tells for an argument whether the capture opens and
  what its n-th \<open>read()\<close> returns (\<open>None\<close> for a failed read). They are taken to return
  normally.
\<close>

record ('f, 'm) externals =
  os :: host
  YOLO :: "string \<Rightarrow> 'm"
  enhance_contrast :: "'f \<Rightarrow> 'f"
  model_track :: "'m \<Rightarrow> 'f \<Rightarrow> 'f results \<times> 'm"
  putText :: "'f \<Rightarrow> string \<Rightarrow> 'f"
  imencode :: "'f \<Rightarrow> string"
  VideoCapture :: "capture_arg \<Rightarrow> bool \<times> (nat \<Rightarrow> 'f option)"

section \<open>app.py: module initialisation\<close>

text \<open>
  Lines 11 to 26. The result is the initial globals and the lines printed. The message
  of the fallback branch is formatted after \<open>MODEL_PATH\<close> was reassigned.
\<close>

definition startup :: "('f, 'm) externals \<Rightarrow> 'm app_state \<times> string list" where
  "startup ext =
     (let p0 = os_path_join (getcwd (os ext)) [''model'', ''best.pt''];
          (p, printed) =
            (if \<not> path_exists (os ext) p0
             then (let p1 = ''yolov8n.pt''
                   in (p1, [''Custom model not found at '' @ p1 @ '', using pretrained model'']))
             else (p0, [''Using custom model: '' @ p0]))
      in (\<lparr>MODEL_PATH = p, model = YOLO ext p, total_bags_counted = 0,
           detection_history = [], current_video_source = JStr ''webcam''\<rparr>,
          printed))"

section \<open>app.py: process_frame\<close>

text \<open>
  Line 45: \<open>sum(1 for r in results[0].boxes if int(r.cls) == gunny_bag_class_id)\<close>,
  with the class identifier it compares with as an argument.
\<close>

definition count_boxes :: "box list \<Rightarrow> int \<Rightarrow> int" where
  "count_boxes bs target = sum_list [1. r \<leftarrow> bs, cls r = target]"

text \<open>Lines 49 to 53: append the sample, then pop the first one if there are over 100.\<close>

definition record_sample ::
  "timestamp \<Rightarrow> int \<Rightarrow> (timestamp \<times> int) list \<Rightarrow> (timestamp \<times> int) list" where
  "record_sample now c h =
     (let h1 = h @ [(now, c)] in if length h1 > 100 then tl h1 else h1)"

text \<open>
  \<open>process_frame(frame)\<close>, with the value \<open>time.time()\<close> returns as an argument. It
  returns the annotated frame and the count, and the updated globals.
\<close>

definition process_frame ::
  "('f, 'm) externals \<Rightarrow> timestamp \<Rightarrow> 'f \<Rightarrow> 'm app_state \<Rightarrow> ('f \<times> int) \<times> 'm app_state" where
  "process_frame ext now frame st =
     (let enhanced = enhance_contrast ext frame;
          (res, m) = model_track ext (model st) enhanced;
          current_count = count_boxes (boxes res) gunny_bag_class_id;
          history = record_sample now current_count (detection_history st);
          annotated_frame = putText ext (plot res) (''Gunny Bags: '' @ py_str current_count)
      in ((annotated_frame, current_count),
          st\<lparr>model := m, detection_history := history\<rparr>))"

text \<open>
  A run of the pipeline over a sequence of frames, each with the clock value of its
  call: the state after the last frame, and the samples the calls recorded, in order.
\<close>

fun process_frames ::
  "('f, 'm) externals \<Rightarrow> (timestamp \<times> 'f) list \<Rightarrow> 'm app_state \<Rightarrow> 'm app_state" where
  "process_frames ext [] st = st"
| "process_frames ext ((now, frame) # rest) st =
     process_frames ext rest (snd (process_frame ext now frame st))"

fun frame_samples ::
  "('f, 'm) externals \<Rightarrow> (timestamp \<times> 'f) list \<Rightarrow> 'm app_state \<Rightarrow> (timestamp \<times> int) list" where
  "frame_samples ext [] st = []"
| "frame_samples ext ((now, frame) # rest) st =
     (now, snd (fst (process_frame ext now frame st)))
       # frame_samples ext rest (snd (process_frame ext now frame st))"

section \<open>app.py: the frame source and the video stream\<close>

text \<open>
  A \<open>cv2.VideoCapture\<close> object: the argument it was made with, \<open>isOpened()\<close>, the
  results its reads will give, how many reads were made, and whether \<open>release()\<close> was
  called.
\<close>

record 'f capture =
  cap_arg :: capture_arg
  is_opened :: bool
  read_results :: "nat \<Rightarrow> 'f option"
  read_pos :: nat
  released :: bool

definition open_capture :: "('f, 'm) externals \<Rightarrow> capture_arg \<Rightarrow> 'f capture" where
  "open_capture ext arg =
     (let (ok, rd) = VideoCapture ext arg
      in \<lparr>cap_arg = arg, is_opened = ok, read_results = rd, read_pos = 0, released = False\<rparr>)"

definition cap_read :: "'f capture \<Rightarrow> 'f option \<times> 'f capture" where
  "cap_read cap = (read_results cap (read_pos cap), cap\<lparr>read_pos := Suc (read_pos cap)\<rparr>)"

definition cap_release :: "'f capture \<Rightarrow> 'f capture" where
  "cap_release cap = cap\<lparr>is_opened := False, released := True\<rparr>"

text \<open>
  \<open>get_video_source()\<close>. The selection is compared with the two fixed names; anything
  else is joined to the working directory, which raises \<open>TypeError\<close> unless it is a
  string.
\<close>

definition get_video_source :: "('f, 'm) externals \<Rightarrow> 'm app_state \<Rightarrow> py_error + 'f capture" where
  "get_video_source ext st =
     (if current_video_source st = JStr ''webcam'' then Inr (open_capture ext (CapIndex 0))
      else if current_video_source st = JStr ''rtsp''
        then Inr (open_capture ext (CapName ''rtsp://your_cctv_feed''))
      else (case current_video_source st of
              JStr s \<Rightarrow>
                (let video_path = os_path_join (getcwd (os ext)) [s]
                 in Inr (open_capture ext (CapName video_path)))
            | _ \<Rightarrow> Inl TypeError))"

text \<open>
  \<open>generate_frames()\<close> is a generator: calling it runs nothing, each \<open>next()\<close> runs the
  body up to the next \<open>yield\<close>, and \<open>close()\<close> (what the server does when the client
  goes away) raises \<open>GeneratorExit\<close> at the \<open>yield\<close> where it is suspended, which runs
  the \<open>finally\<close> block. A generator is created, suspended at the \<open>yield\<close> with its
  local \<open>cap\<close>, or finished; a finished one keeps the capture it had, if it got one.
\<close>

datatype 'f frames_gen =
    GenCreated
  | GenSuspended "'f capture"
  | GenFinished "'f capture option"

datatype 'a gen_out = Yield 'a | StopIteration | Raise py_error

definition frame_part :: "string \<Rightarrow> string" where
  "frame_part buffer =
     ''--frame'' @ CRLF @ ''Content-Type: image/jpeg'' @ CRLF @ CRLF @ buffer @ CRLF"

text \<open>The \<open>while\<close> loop from its test up to the next \<open>yield\<close> or the end of the body.\<close>

definition frames_loop ::
  "('f, 'm) externals \<Rightarrow> timestamp \<Rightarrow> 'f capture \<Rightarrow> 'm app_state
     \<Rightarrow> string gen_out \<times> 'f frames_gen \<times> 'm app_state" where
  "frames_loop ext now cap st =
     (if is_opened cap then
        (case cap_read cap of
           (None, cap') \<Rightarrow> (StopIteration, GenFinished (Some (cap_release cap')), st)
         | (Some frame, cap') \<Rightarrow>
             (let ((processed, _), st') = process_frame ext now frame st;
                  buffer = imencode ext processed
              in (Yield (frame_part buffer), GenSuspended cap', st')))
      else (StopIteration, GenFinished (Some (cap_release cap)), st))"

definition generate_frames_next ::
  "('f, 'm) externals \<Rightarrow> timestamp \<Rightarrow> 'f frames_gen \<Rightarrow> 'm app_state
     \<Rightarrow> string gen_out \<times> 'f frames_gen \<times> 'm app_state" where
  "generate_frames_next ext now g st =
     (case g of
        GenCreated \<Rightarrow>
          (case get_video_source ext st of
             Inl e \<Rightarrow> (Raise e, GenFinished None, st)
           | Inr cap \<Rightarrow> frames_loop ext now cap st)
      | GenSuspended cap \<Rightarrow> frames_loop ext now cap st
      | GenFinished c \<Rightarrow> (StopIteration, GenFinished c, st))"

definition generate_frames_close :: "'f frames_gen \<Rightarrow> 'f frames_gen" where
  "generate_frames_close g =
     (case g of
        GenCreated \<Rightarrow> GenFinished None
      | GenSuspended cap \<Rightarrow> GenFinished (Some (cap_release cap))
      | GenFinished c \<Rightarrow> GenFinished c)"

definition gen_capture :: "'f frames_gen \<Rightarrow> 'f capture option" where
  "gen_capture g = (case g of GenCreated \<Rightarrow> None | GenSuspended cap \<Rightarrow> Some cap | GenFinished c \<Rightarrow> c)"

text \<open>
  A finished generator that had a capture has released it, and the capture is closed.
\<close>

definition finished_released :: "'f frames_gen \<Rightarrow> bool" where
  "finished_released g =
     (case g of GenFinished (Some c) \<Rightarrow> released c \<and> \<not> is_opened c | _ \<Rightarrow> True)"

section \<open>app.py: the routes\<close>

text \<open>
  \<open>data.get('source', 'webcam')\<close>: only a dict has \<open>get\<close>; on any other JSON value
  the attribute lookup raises.
\<close>

definition dict_get :: "json \<Rightarrow> string \<Rightarrow> json \<Rightarrow> py_error + json" where
  "dict_get data key dflt =
     (case data of
        JObj kvs \<Rightarrow> Inr (case map_of (rev kvs) key of Some v \<Rightarrow> v | None \<Rightarrow> dflt)
      | _ \<Rightarrow> Inl AttributeError)"

text \<open>
  \<open>change_source()\<close>, with the parsed body as an argument: the response (or the error
  that escapes the view) and the updated globals.
\<close>

definition change_source :: "json \<Rightarrow> 'm app_state \<Rightarrow> (py_error + json) \<times> 'm app_state" where
  "change_source data st =
     (case dict_get data ''source'' (JStr ''webcam'') of
        Inl e \<Rightarrow> (Inl e, st)
      | Inr v \<Rightarrow>
          (let st' = st\<lparr>current_video_source := v\<rparr>
           in (Inr (JObj [(''success'', JBool True), (''source'', current_video_source st')]),
               st')))"

text \<open>
  \<open>generate_counts()\<close> inside \<open>count_updates()\<close>, again a generator. A step returns
  the \<open>time.sleep\<close> calls it made before the \<open>yield\<close>, and what it yields.
\<close>

datatype counts_gen = CountsCreated | CountsSuspended | CountsFinished

definition count_message :: "'m app_state \<Rightarrow> string" where
  "count_message st =
     (if detection_history st \<noteq> []
      then (let (_, count) = last (detection_history st)
            in ''data: '' @ py_str count @ [LF, LF])
      else ''data: 0'' @ [LF, LF])"

definition generate_counts_next ::
  "counts_gen \<Rightarrow> 'm app_state \<Rightarrow> real list \<times> string gen_out \<times> counts_gen" where
  "generate_counts_next g st =
     (case g of
        CountsCreated \<Rightarrow> ([], Yield (count_message st), CountsSuspended)
      | CountsSuspended \<Rightarrow> ([1 / 2], Yield (count_message st), CountsSuspended)
      | CountsFinished \<Rightarrow> ([], StopIteration, CountsFinished))"

definition generate_counts_close :: "counts_gen \<Rightarrow> counts_gen" where
  "generate_counts_close g = CountsFinished"

text \<open>
  The stream a client sees: one \<open>next()\<close> for each state of the globals in the list,
  which is the state at the time of that step.
\<close>

fun generate_counts_run ::
  "counts_gen \<Rightarrow> 'm app_state list \<Rightarrow> (real list \<times> string gen_out) list" where
  "generate_counts_run g [] = []"
| "generate_counts_run g (st # sts) =
     (case generate_counts_next g st of
        (slept, out, g') \<Rightarrow> (slept, out) # generate_counts_run g' sts)"

section \<open>The server as a transition system\<close>

text \<open>
  The server holds the globals and the generators of the video streams it is serving.
  A request to \<open>/video_feed\<close> adds a generator (\<open>Response(generate_frames())\<close>); the
  server then advances a stream, a client leaves, or a \<open>/change_source\<close> request comes
  in, in any order.
\<close>

record ('f, 'm) server =
  globals :: "'m app_state"
  streams :: "'f frames_gen list"

datatype event =
    VideoFeed
  | Advance nat timestamp
  | Disconnect nat
  | ChangeSource json

fun is_change_source :: "event \<Rightarrow> bool" where
  "is_change_source (ChangeSource data) = True"
| "is_change_source _ = False"

definition server_step ::
  "('f, 'm) externals \<Rightarrow> ('f, 'm) server \<Rightarrow> event \<Rightarrow> ('f, 'm) server" where
  "server_step ext sv ev =
     (case ev of
        VideoFeed \<Rightarrow> sv\<lparr>streams := streams sv @ [GenCreated]\<rparr>
      | Advance i now \<Rightarrow>
          (if i < length (streams sv) then
             (case generate_frames_next ext now (streams sv ! i) (globals sv) of
                (out, g, st) \<Rightarrow> \<lparr>globals = st, streams = (streams sv)[i := g]\<rparr>)
           else sv)
      | Disconnect i \<Rightarrow>
          (if i < length (streams sv)
           then sv\<lparr>streams := (streams sv)[i := generate_frames_close (streams sv ! i)]\<rparr>
           else sv)
      | ChangeSource data \<Rightarrow> sv\<lparr>globals := snd (change_source data (globals sv))\<rparr>)"

definition server_run ::
  "('f, 'm) externals \<Rightarrow> ('f, 'm) server \<Rightarrow> event list \<Rightarrow> ('f, 'm) server" where
  "server_run ext sv evs = foldl (server_step ext) sv evs"

definition server_start :: "('f, 'm) externals \<Rightarrow> ('f, 'm) server" where
  "server_start ext = \<lparr>globals = fst (startup ext), streams = []\<rparr>"

section \<open>prepare_data.py\<close>

text \<open>
  What the script does to the file system and the terminal, in the order it does it.
\<close>

datatype fs_effect = Makedirs string | Copy string string | Print string

text \<open>
  For this script the host also tells which directories a directory name with wildcard
  characters stands for (what \<open>glob\<close> finds for it), and what \<open>os.makedirs\<close> or
  \<open>shutil.copy\<close> raises for given arguments, if anything.
\<close>

record disk_host = host +
  glob_dirs :: "string \<Rightarrow> string list"
  fs_error :: "fs_effect \<Rightarrow> py_error option"

definition ends_with :: "string \<Rightarrow> string \<Rightarrow> bool" where
  "ends_with name sfx = (length sfx \<le> length name \<and> drop (length name - length sfx) name = sfx)"

text \<open>
  \<open>glob(pathname)\<close> for a pathname whose last component is a star followed by literal
  text: the names that end with the text, hidden names left out as the pattern is not
  hidden, in the directory that the rest of the pathname names, or in each directory it
  stands for if it has wildcard characters itself, each name joined to its directory.
\<close>

definition is_hidden :: "string \<Rightarrow> bool" where
  "is_hidden n = (n \<noteq> [] \<and> hd n = CHR ''.'')"

definition has_magic :: "string \<Rightarrow> bool" where
  "has_magic s = list_ex (\<lambda>c. c = CHR ''*'' \<or> c = CHR ''?'' \<or> c = CHR ''['') s"

definition fnmatch :: "string \<Rightarrow> string \<Rightarrow> bool" where
  "fnmatch name pat = (case pat of c # lit \<Rightarrow> if c = CHR ''*'' then ends_with name lit else name = pat
                       | [] \<Rightarrow> name = [])"

definition glob1 :: "'a disk_host_scheme \<Rightarrow> string \<Rightarrow> string \<Rightarrow> string list" where
  "glob1 h dirname pattern =
     filter (\<lambda>n. (is_hidden pattern \<or> \<not> is_hidden n) \<and> fnmatch n pattern) (listdir h dirname)"

definition glob :: "'a disk_host_scheme \<Rightarrow> string \<Rightarrow> string list" where
  "glob h pathname =
     (let (dirname, basename) = os_path_split pathname
      in if dirname = [] then glob1 h ''.'' basename
         else (let dirs = (if dirname \<noteq> pathname \<and> has_magic dirname then glob_dirs h dirname
                           else [dirname])
               in concat (map (\<lambda>d. map (\<lambda>n. os_path_join d [n]) (glob1 h d basename)) dirs)))"

text \<open>
  The two copy loops of \<open>prepare_dataset\<close> have the same body, with the train or the
  validation directories: the operations a loop goes through, in order. The test for the
  label file asks the host as it was when the script started: a copy writes either an
  image name or a label it has just found to exist, so no copy makes a missing label
  appear.
\<close>

fun copy_images ::
  "'a disk_host_scheme \<Rightarrow> string \<Rightarrow> string \<Rightarrow> string \<Rightarrow> string list \<Rightarrow> fs_effect list" where
  "copy_images h images_dir img_dir label_dir [] = []"
| "copy_images h images_dir img_dir label_dir (img_path # rest) =
     (let filename = os_path_basename img_path;
          base_name = fst (os_path_splitext filename);
          label_path = os_path_join images_dir [base_name @ ''.txt'']
      in Copy img_path (os_path_join img_dir [filename])
         # (if path_exists h label_path
            then [Copy label_path (os_path_join label_dir [base_name @ ''.txt''])] else [])
         @ copy_images h images_dir img_dir label_dir rest)"

text \<open>
  Operations are carried out one after the other until one raises: what was done, and
  the error that ended the run, if any. Printing does not fail.
\<close>

fun perform :: "'a disk_host_scheme \<Rightarrow> fs_effect list \<Rightarrow> fs_effect list \<times> py_error option" where
  "perform h [] = ([], None)"
| "perform h (x # xs) =
     (case (case x of Print s \<Rightarrow> None | _ \<Rightarrow> fs_error h x) of
        Some err \<Rightarrow> ([], Some err)
      | None \<Rightarrow> (case perform h xs of (done, r) \<Rightarrow> (x # done, r)))"

definition image_files_of :: "'a disk_host_scheme \<Rightarrow> string \<Rightarrow> string list" where
  "image_files_of h images_dir =
     concat (map (\<lambda>ext. glob h (os_path_join images_dir [''*.'' @ ext])) [''jpg'', ''jpeg'', ''png''])"

definition train_img_dir :: "'a host_scheme \<Rightarrow> string" where
  "train_img_dir h = os_path_join (os_path_join (getcwd h) [''dataset'']) [''images'', ''train'']"

definition val_img_dir :: "'a host_scheme \<Rightarrow> string" where
  "val_img_dir h = os_path_join (os_path_join (getcwd h) [''dataset'']) [''images'', ''val'']"

definition train_label_dir :: "'a host_scheme \<Rightarrow> string" where
  "train_label_dir h = os_path_join (os_path_join (getcwd h) [''dataset'']) [''labels'', ''train'']"

definition val_label_dir :: "'a host_scheme \<Rightarrow> string" where
  "val_label_dir h = os_path_join (os_path_join (getcwd h) [''dataset'']) [''labels'', ''val'']"

text \<open>Line 34: \<open>int(len(image_files) * split_ratio)\<close>, for a float ratio.\<close>

definition split_index :: "int \<Rightarrow> pyfloat \<Rightarrow> py_error + int" where
  "split_index n split_ratio =
     (case len_times n split_ratio of Inl err \<Rightarrow> Inl err | Inr p \<Rightarrow> py_int p)"

text \<open>
  \<open>prepare_dataset(images_dir, split_ratio)\<close>, the ratio being a float as its default
  0.8 is: the operations carried out and the error that ended the run, if any.
\<close>

definition prepare_dataset ::
  "'a disk_host_scheme \<Rightarrow> (nat \<Rightarrow> nat) \<Rightarrow> string \<Rightarrow> pyfloat \<Rightarrow> fs_effect list \<times> py_error option" where
  "prepare_dataset h rnd images_dir split_ratio =
     (case perform h [Makedirs (train_img_dir h), Makedirs (val_img_dir h),
                      Makedirs (train_label_dir h), Makedirs (val_label_dir h)] of
        (made, Some err) \<Rightarrow> (made, Some err)
      | (made, None) \<Rightarrow>
          (let image_files = random_shuffle rnd (image_files_of h images_dir)
           in case split_index (int (length image_files)) split_ratio of
                Inl err \<Rightarrow> (made, Some err)
              | Inr split_idx \<Rightarrow>
                  (let train_images = slice_to image_files split_idx;
                       val_images = slice_from image_files split_idx
                   in case perform h
                        (copy_images h images_dir (train_img_dir h) (train_label_dir h) train_images
                         @ copy_images h images_dir (val_img_dir h) (val_label_dir h) val_images
                         @ [Print (''Dataset prepared: '' @ py_str (int (length train_images))
                                   @ '' training images, '' @ py_str (int (length val_images))
                                   @ '' validation images'')]) of
                        (copied, r) \<Rightarrow> (made @ copied, r))))"

text \<open>Reading a trace: the directories made, and the files copied into a directory.\<close>

fun made_dirs :: "fs_effect list \<Rightarrow> string list" where
  "made_dirs [] = []"
| "made_dirs (Makedirs d # tr) = d # made_dirs tr"
| "made_dirs (_ # tr) = made_dirs tr"

fun copies_into :: "string \<Rightarrow> fs_effect list \<Rightarrow> string list" where
  "copies_into d [] = []"
| "copies_into d (Copy src dst # tr) =
     (if os_path_dirname dst = d then src # copies_into d tr else copies_into d tr)"
| "copies_into d (_ # tr) = copies_into d tr"

text \<open>
  The directory whose entries the three patterns are matched against, and the names
  they match between them: the names not starting with a dot that end with one of the
  three extensions.
\<close>

definition listed_dir :: "string \<Rightarrow> string" where
  "listed_dir images_dir =
     (let dirname = os_path_dirname (os_path_join images_dir [''*.jpg''])
      in if dirname = [] then ''.'' else dirname)"

definition is_image_name :: "string \<Rightarrow> bool" where
  "is_image_name n =
     (\<not> is_hidden n \<and> (ends_with n ''.jpg'' \<or> ends_with n ''.jpeg'' \<or> ends_with n ''.png''))"

text \<open>The label file the script looks for beside an image.\<close>

definition label_path_of :: "string \<Rightarrow> string \<Rightarrow> string" where
  "label_path_of images_dir img_path =
     os_path_join images_dir [fst (os_path_splitext (os_path_basename img_path)) @ ''.txt'']"

section \<open>A small concrete installation\<close>

text \<open>
  A host and a set of library stand-ins to run the model on: a frame is the list of the
  class identifiers of the objects in view, the detector reports one box for each and
  numbers the boxes consecutively over all calls, the webcam never ends and shows one
  bag, and \<open>sample.mp4\<close> has two frames.
\<close>

definition demo_host :: host where
  "demo_host =
     \<lparr>getcwd = ''/srv/app'',
      path_exists = (\<lambda>p. p \<in> set [''/srv/app/sample.mp4'', ''/data/a.jpg'', ''/data/a.txt'',
                                   ''/data/b.png'', ''/data/c.jpeg'', ''/data/notes.md'']),
      listdir = (\<lambda>d. if d = ''/data'' then [''a.jpg'', ''a.txt'', ''b.png'', ''c.jpeg'', ''notes.md'']
                      else [])\<rparr>"

definition demo_track :: "nat \<Rightarrow> int list \<Rightarrow> int list results \<times> nat" where
  "demo_track m frame =
     (\<lparr>boxes = map (\<lambda>(i, c). \<lparr>cls = c, box_id = m + i + 1\<rparr>) (enumerate 0 frame), plot = frame\<rparr>,
      m + length frame)"

definition demo_capture :: "capture_arg \<Rightarrow> bool \<times> (nat \<Rightarrow> int list option)" where
  "demo_capture arg =
     (case arg of
        CapIndex i \<Rightarrow> (i = 0, \<lambda>n. Some [0])
      | CapName p \<Rightarrow> (p = ''/srv/app/sample.mp4'', \<lambda>n. if n < 2 then Some [0, 1, 0] else None))"

definition demo_ext :: "(int list, nat) externals" where
  "demo_ext =
     \<lparr>os = demo_host, YOLO = (\<lambda>p. 0), enhance_contrast = (\<lambda>f. f), model_track = demo_track,
      putText = (\<lambda>f s. f), imencode = (\<lambda>f. map (\<lambda>c. if c = 0 then CHR ''g'' else CHR ''o'') f),
      VideoCapture = demo_capture\<rparr>"

text \<open>
  Captures, requests and runs of the server on this installation: the body that selects
  the sample file; the webcam capture after one read and the file capture after its two
  frames; a file that is not there, with the globals that select it; the server after a
  first frame from the webcam, and after that stream was left, the sample file selected
  and a new stream requested.
\<close>

definition sample_body :: json where
  "sample_body = JObj [(''source'', JStr ''sample.mp4'')]"

definition webcam_cap :: "int list capture" where
  "webcam_cap = \<lparr>cap_arg = CapIndex 0, is_opened = True, read_results = (\<lambda>n. Some [0]),
                  read_pos = 1, released = False\<rparr>"

definition file_cap :: "int list capture" where
  "file_cap = \<lparr>cap_arg = CapName ''/srv/app/sample.mp4'', is_opened = True,
                read_results = (\<lambda>n. if n < 2 then Some [0, 1, 0] else None),
                read_pos = 2, released = False\<rparr>"

definition webcam_server :: "(int list, nat) server" where
  "webcam_server = server_run demo_ext (server_start demo_ext) [VideoFeed, Advance 0 1]"

definition reopened_server :: "(int list, nat) server" where
  "reopened_server =
     server_run demo_ext (server_start demo_ext)
       [VideoFeed, Advance 0 1, Disconnect 0, ChangeSource sample_body, VideoFeed]"

definition missing_state :: "nat app_state" where
  "missing_state = (fst (startup demo_ext))\<lparr>current_video_source := JStr ''missing.mp4''\<rparr>"

definition missing_cap :: "int list capture" where
  "missing_cap = \<lparr>cap_arg = CapName ''/srv/app/missing.mp4'', is_opened = False,
                   read_results = (\<lambda>n. if n < 2 then Some [0, 1, 0] else None),
                   read_pos = 0, released = False\<rparr>"

text \<open>
  The host as \<open>prepare_data.py\<close> sees it, with no wildcard directories and no failing
  operation, and variants of it: one hidden image in the source directory and nothing
  else; a source directory named \<open>d[1]\<close> with one image, where no directory \<open>d1\<close>
  exists; two entries, the first of them a directory whose name ends with \<open>.jpg\<close>;
  five images.
\<close>

definition demo_disk :: disk_host where
  "demo_disk = host.extend demo_host
     (disk_host.fields (\<lambda>d. []) (\<lambda>x. None))"

definition hidden_disk :: disk_host where
  "hidden_disk = demo_disk\<lparr>listdir := (\<lambda>d. if d = ''/data'' then [''.h.jpg''] else [])\<rparr>"

definition bracket_disk :: disk_host where
  "bracket_disk = demo_disk\<lparr>listdir := (\<lambda>d. if d = ''/d[1]'' then [''a.jpg''] else [])\<rparr>"

definition folder_disk :: disk_host where
  "folder_disk = demo_disk
     \<lparr>listdir := (\<lambda>d. if d = ''/data'' then [''a.jpg'', ''b.png''] else []),
      fs_error := (\<lambda>x. case x of Copy src dst \<Rightarrow>
                           if src = ''/data/a.jpg'' then Some IsADirectoryError else None
                         | _ \<Rightarrow> None)\<rparr>"

definition five_disk :: disk_host where
  "five_disk = demo_disk
     \<lparr>listdir := (\<lambda>d. if d = ''/data''
                       then [''1.jpg'', ''2.jpg'', ''3.jpg'', ''4.jpg'', ''5.jpg''] else [])\<rparr>"

text \<open>The floats 0.8, 0.6, 0.58, 1.0 and 2.0.\<close>

definition float_0_8 :: pyfloat where
  "float_0_8 = Finite 3602879701896397 (- 52)"

definition float_0_6 :: pyfloat where
  "float_0_6 = Finite 5404319552844595 (- 53)"

definition float_0_58 :: pyfloat where
  "float_0_58 = Finite 5224175567749775 (- 53)"

definition float_1 :: pyfloat where
  "float_1 = Finite 1 0"

definition float_2 :: pyfloat where
  "float_2 = Finite 2 0"

text \<open>The same installation after training, with the weights file in place.\<close>

definition trained_ext :: "(int list, nat) externals" where
  "trained_ext = demo_ext\<lparr>os := demo_host\<lparr>path_exists := (\<lambda>p. p = ''/srv/app/model/best.pt'')\<rparr>\<rparr>"

text \<open>The globals after start-up, with a history that is already full.\<close>

definition full_state :: "nat app_state" where
  "full_state = (fst (startup demo_ext))\<lparr>detection_history := replicate 100 (0, 0)\<rparr>"


section \<open>Properties of process_frame\<close>

lemma count_boxes_length: "count_boxes bs target = int (length (filter (\<lambda>r. cls r = target) bs))"
  unfolding count_boxes_def by (induction bs) auto

lemma record_sample_drop:
  "length h \<le> 100 \<Longrightarrow> record_sample now c h = drop (Suc (length h) - 100) (h @ [(now, c)])"
  by (cases h) (auto simp: record_sample_def Let_def drop_Cons' Suc_diff_le)

lemma record_sample_length_le: "length h \<le> 100 \<Longrightarrow> length (record_sample now c h) \<le> 100"
  by (auto simp: record_sample_def Let_def)

lemma record_sample_full: "length h = 100 \<Longrightarrow> record_sample now c h = tl h @ [(now, c)]"
  by (cases h) (auto simp: record_sample_def Let_def)

lemma process_frame_history:
  "detection_history (snd (process_frame ext now frame st)) =
     record_sample now (snd (fst (process_frame ext now frame st))) (detection_history st)"
  by (simp add: process_frame_def Let_def split: prod.splits)

lemma process_frame_count:
  "snd (fst (process_frame ext now frame st)) =
     count_boxes (boxes (fst (model_track ext (model st) (enhance_contrast ext frame))))
       gunny_bag_class_id"
  by (simp add: process_frame_def Let_def split: prod.splits)

lemma process_frame_source:
  "current_video_source (snd (process_frame ext now frame st)) = current_video_source st"
  by (simp add: process_frame_def Let_def split: prod.splits)

lemma process_frame_model:
  "model (snd (process_frame ext now frame st)) =
     snd (model_track ext (model st) (enhance_contrast ext frame))"
  by (simp add: process_frame_def Let_def split: prod.splits)

lemma length_frame_samples: "length (frame_samples ext inputs st) = length inputs"
  by (induction ext inputs st rule: frame_samples.induct) auto

lemma frame_samples_times: "map fst (frame_samples ext inputs st) = map fst inputs"
  by (induction ext inputs st rule: frame_samples.induct) auto

lemma history_process_frames:
  "length (detection_history st) \<le> 100 \<Longrightarrow>
   detection_history (process_frames ext inputs st) =
     drop (length (detection_history st) + length inputs - 100)
          (detection_history st @ frame_samples ext inputs st)"
proof (induction ext inputs st rule: process_frames.induct)
  case (1 ext st)
  then show ?case by simp
next
  case (2 ext now frame rest st)
  let ?st = "snd (process_frame ext now frame st)"
  let ?c = "snd (fst (process_frame ext now frame st))"
  let ?h = "detection_history st"
  have h': "detection_history ?st = drop (Suc (length ?h) - 100) (?h @ [(now, ?c)])"
    using 2(2) by (simp add: process_frame_history record_sample_drop)
  have le: "length (detection_history ?st) \<le> 100"
    using 2(2) by (simp add: process_frame_history record_sample_length_le)
  have "detection_history (process_frames ext ((now, frame) # rest) st) =
        drop (length (detection_history ?st) + length rest - 100)
          (detection_history ?st @ frame_samples ext rest ?st)"
    using 2(1)[OF le] by simp
  also have "\<dots> = drop (length (detection_history ?st) + length rest - 100)
          (drop (Suc (length ?h) - 100) ((?h @ [(now, ?c)]) @ frame_samples ext rest ?st))"
    unfolding h' using 2(2) by simp
  also have "\<dots> = drop (length ?h + length ((now, frame) # rest) - 100)
          (?h @ frame_samples ext ((now, frame) # rest) st)"
  proof (cases "length ?h = 100")
    case True
    then show ?thesis unfolding h' by simp
  next
    case False
    with 2(2) have "length ?h < 100" by simp
    then show ?thesis unfolding h' by simp
  qed
  finally show ?case .
qed

lemma startup_history: "detection_history (fst (startup ext)) = []"
  by (simp add: startup_def Let_def split: prod.splits)

lemma startup_source: "current_video_source (fst (startup ext)) = JStr ''webcam''"
  by (simp add: startup_def Let_def split: prod.splits)

lemma change_source_history:
  "detection_history (snd (change_source data st)) = detection_history st"
  by (simp add: change_source_def Let_def split: sum.splits)

lemma change_source_model: "model (snd (change_source data st)) = model st"
  by (simp add: change_source_def Let_def split: sum.splits)

lemma process_frame_history_le:
  "length (detection_history st) \<le> 100 \<Longrightarrow>
   length (detection_history (snd (process_frame ext now frame st))) \<le> 100"
  by (simp add: process_frame_history record_sample_length_le)

lemma frames_loop_history_le:
  assumes "length (detection_history st) \<le> 100"
  shows "length (detection_history (snd (snd (frames_loop ext now cap st)))) \<le> 100"
proof (cases "is_opened cap")
  case False
  with assms show ?thesis by (simp add: frames_loop_def)
next
  case True
  show ?thesis
  proof (cases "read_results cap (read_pos cap)")
    case None
    with True assms show ?thesis by (simp add: frames_loop_def cap_read_def)
  next
    case (Some frame)
    have "snd (snd (frames_loop ext now cap st)) = snd (process_frame ext now frame st)"
      using True Some by (simp add: frames_loop_def cap_read_def Let_def split: prod.splits)
    with assms show ?thesis by (simp add: process_frame_history_le)
  qed
qed

lemma next_history_le:
  "length (detection_history st) \<le> 100 \<Longrightarrow>
   length (detection_history (snd (snd (generate_frames_next ext now g st)))) \<le> 100"
  by (auto simp: generate_frames_next_def frames_loop_history_le
           split: frames_gen.splits sum.splits)

lemma server_step_history_le:
  assumes "length (detection_history (globals sv)) \<le> 100"
  shows "length (detection_history (globals (server_step ext sv ev))) \<le> 100"
proof (cases ev)
  case VideoFeed
  with assms show ?thesis by (simp add: server_step_def)
next
  case (Advance i now)
  have "globals (server_step ext sv ev) = globals sv \<or>
        globals (server_step ext sv ev) =
          snd (snd (generate_frames_next ext now (streams sv ! i) (globals sv)))"
    using Advance by (simp add: server_step_def split: prod.splits)
  with assms next_history_le[OF assms] show ?thesis by auto
next
  case (Disconnect i)
  with assms show ?thesis by (simp add: server_step_def)
next
  case (ChangeSource data)
  with assms show ?thesis by (simp add: server_step_def change_source_history)
qed

lemma server_run_history_le:
  "length (detection_history (globals sv)) \<le> 100 \<Longrightarrow>
   length (detection_history (globals (server_run ext sv evs))) \<le> 100"
  unfolding server_run_def
  by (induction evs arbitrary: sv) (auto simp: server_step_history_le)

text \<open>
  Claim C1. After \<open>N\<close> frames have gone through \<open>process_frame\<close> since start-up, the
  history holds the last \<open>min N 100\<close> of the samples recorded, in the order they were
  recorded, each with the clock value of its frame. On a history of 100 samples a further
  frame drops the oldest sample and appends the new one; a history of at most 100 samples
  still has at most 100 after a frame, and so it has after any sequence of requests and
  stream steps of the server.
\<close>

theorem history_bounded_fifo:
  "length (frame_samples ext inputs (fst (startup ext))) = length inputs \<and>
   map fst (frame_samples ext inputs (fst (startup ext))) = map fst inputs \<and>
   detection_history (process_frames ext inputs (fst (startup ext))) =
     drop (length inputs - 100) (frame_samples ext inputs (fst (startup ext))) \<and>
   length (detection_history (process_frames ext inputs (fst (startup ext)))) =
     min (length inputs) 100 \<and>
   (length (detection_history st) = 100 \<longrightarrow>
      detection_history (snd (process_frame ext now frame st)) =
        tl (detection_history st) @ [(now, snd (fst (process_frame ext now frame st)))]) \<and>
   (length (detection_history st) \<le> 100 \<longrightarrow>
      length (detection_history (snd (process_frame ext now frame st))) \<le> 100) \<and>
   length (detection_history (globals (server_run ext (server_start ext) evs))) \<le> 100"
proof -
  let ?st0 = "fst (startup ext)"
  have h: "detection_history (process_frames ext inputs ?st0) =
     drop (length inputs - 100) (frame_samples ext inputs ?st0)"
    using history_process_frames[of ?st0 ext inputs] by (simp add: startup_history)
  have l: "length (detection_history (process_frames ext inputs ?st0)) = min (length inputs) 100"
    unfolding h by (simp add: length_frame_samples)
  have s: "length (detection_history (globals (server_run ext (server_start ext) evs))) \<le> 100"
    by (rule server_run_history_le) (simp add: server_start_def startup_history)
  show ?thesis
    using h l s
    by (simp add: length_frame_samples frame_samples_times process_frame_history
          record_sample_full record_sample_length_le)
qed

theorem history_bounded_fifo_witness:
  "length (detection_history full_state) = 100 \<and>
   detection_history (snd (process_frame demo_ext 7 [0, 1] full_state)) =
     tl (detection_history full_state) @ [(7, 1)] \<and>
   length (detection_history (snd (process_frame demo_ext 7 [0, 1] full_state))) \<le> 100"
proof -
  have len: "length (detection_history full_state) = 100"
    by (simp add: full_state_def)
  have c: "snd (fst (process_frame demo_ext 7 [0, 1] full_state)) = 1"
    by (simp add: process_frame_count demo_ext_def demo_track_def count_boxes_def
          gunny_bag_class_id_def enumerate_eq_zip)
  show ?thesis
    using len c history_bounded_fifo[of demo_ext "[]" full_state 7 "[0, 1]" "[]"]
    by simp
qed

text \<open>
  Claim C2. For every list of boxes and every class identifier, the count of line 45 is
  the number of boxes whose class identifier equals it, and 0 for no boxes; the count
  \<open>process_frame\<close> returns is that number for the boxes the detector reported and the
  identifier \<open>gunny_bag_class_id\<close>.
\<close>

theorem count_is_number_of_target_boxes:
  "count_boxes bs target = int (length (filter (\<lambda>r. cls r = target) bs)) \<and>
   count_boxes [] target = 0 \<and>
   snd (fst (process_frame ext now frame st)) =
     int (length (filter (\<lambda>r. cls r = gunny_bag_class_id)
       (boxes (fst (model_track ext (model st) (enhance_contrast ext frame))))))"
  by (simp add: process_frame_count count_boxes_length)

section \<open>The source selection\<close>

lemma frames_loop_source:
  "current_video_source (snd (snd (frames_loop ext now cap st))) = current_video_source st"
proof (cases "is_opened cap")
  case False
  then show ?thesis by (simp add: frames_loop_def)
next
  case True
  show ?thesis
  proof (cases "read_results cap (read_pos cap)")
    case None
    with True show ?thesis by (simp add: frames_loop_def cap_read_def)
  next
    case (Some frame)
    have "snd (snd (frames_loop ext now cap st)) = snd (process_frame ext now frame st)"
      using True Some by (simp add: frames_loop_def cap_read_def Let_def split: prod.splits)
    then show ?thesis by (simp add: process_frame_source)
  qed
qed

lemma next_source:
  "current_video_source (snd (snd (generate_frames_next ext now g st))) = current_video_source st"
  by (simp add: generate_frames_next_def frames_loop_source split: frames_gen.splits sum.splits)

lemma server_step_source:
  "\<not> is_change_source ev \<Longrightarrow>
   current_video_source (globals (server_step ext sv ev)) = current_video_source (globals sv)"
proof (cases ev)
  case (Advance i now)
  have "globals (server_step ext sv ev) = globals sv \<or>
        globals (server_step ext sv ev) =
          snd (snd (generate_frames_next ext now (streams sv ! i) (globals sv)))"
    using Advance by (simp add: server_step_def split: prod.splits)
  then show ?thesis by (auto simp: next_source)
qed (simp_all add: server_step_def)

lemma server_run_source:
  "list_all (\<lambda>ev. \<not> is_change_source ev) evs \<Longrightarrow>
   current_video_source (globals (server_run ext sv evs)) = current_video_source (globals sv)"
  unfolding server_run_def
  by (induction evs arbitrary: sv) (simp_all add: server_step_source)

lemma open_capture_arg: "cap_arg (open_capture ext arg) = arg"
  by (simp add: open_capture_def split: prod.splits)

lemma frames_loop_capture:
  "\<exists>cap'. gen_capture (fst (snd (frames_loop ext now cap st))) = Some cap' \<and>
      cap_arg cap' = cap_arg cap \<and> read_results cap' = read_results cap"
  by (simp add: frames_loop_def cap_read_def cap_release_def gen_capture_def Let_def
        split: option.splits prod.splits)

section \<open>Start-up\<close>

text \<open>
  Claim C8. If nothing exists at \<open>model/best.pt\<close> under the working directory, start-up
  sets \<open>MODEL_PATH\<close> to \<open>yolov8n.pt\<close>, prints one line about the fallback (which names
  the fallback, as it is formatted after the assignment) and still constructs the model,
  from the fallback; if the path exists, the path is used and the model is constructed
  from it. The target class identifier is 0.
\<close>

theorem startup_model_path:
  "(\<not> path_exists (os ext) (os_path_join (getcwd (os ext)) [''model'', ''best.pt'']) \<longrightarrow>
      MODEL_PATH (fst (startup ext)) = ''yolov8n.pt'' \<and>
      model (fst (startup ext)) = YOLO ext ''yolov8n.pt'' \<and>
      snd (startup ext) = [''Custom model not found at yolov8n.pt, using pretrained model'']) \<and>
   (path_exists (os ext) (os_path_join (getcwd (os ext)) [''model'', ''best.pt'']) \<longrightarrow>
      MODEL_PATH (fst (startup ext)) = os_path_join (getcwd (os ext)) [''model'', ''best.pt''] \<and>
      model (fst (startup ext)) = YOLO ext (os_path_join (getcwd (os ext)) [''model'', ''best.pt'']) \<and>
      snd (startup ext) =
        [''Using custom model: '' @ os_path_join (getcwd (os ext)) [''model'', ''best.pt'']]) \<and>
   gunny_bag_class_id = 0"
  by (simp add: startup_def Let_def gunny_bag_class_id_def)

theorem startup_model_path_witness:
  "\<not> path_exists (os demo_ext) (os_path_join (getcwd (os demo_ext)) [''model'', ''best.pt'']) \<and>
   MODEL_PATH (fst (startup demo_ext)) = ''yolov8n.pt'' \<and>
   path_exists (os trained_ext) (os_path_join (getcwd (os trained_ext)) [''model'', ''best.pt'']) \<and>
   MODEL_PATH (fst (startup trained_ext)) = ''/srv/app/model/best.pt'' \<and>
   snd (startup trained_ext) = [''Using custom model: /srv/app/model/best.pt'']"
proof -
  have a: "\<not> path_exists (os demo_ext) (os_path_join (getcwd (os demo_ext)) [''model'', ''best.pt''])"
    by (simp add: demo_ext_def demo_host_def os_path_join_def join2_def)
  have b: "os_path_join (getcwd (os trained_ext)) [''model'', ''best.pt''] = ''/srv/app/model/best.pt''"
    by (simp add: trained_ext_def demo_ext_def demo_host_def os_path_join_def join2_def)
  have c: "path_exists (os trained_ext) ''/srv/app/model/best.pt''"
    by (simp add: trained_ext_def demo_ext_def demo_host_def)
  show ?thesis
    using a b c startup_model_path[of demo_ext] startup_model_path[of trained_ext]
    by simp
qed

section \<open>The change_source route\<close>

text \<open>
  Claim C10, as stated, fails: a JSON body that is not an object, here the empty array,
  has no \<open>get\<close>, and the request ends with \<open>AttributeError\<close> instead of a response.
\<close>

theorem change_source_non_object_counterexample:
  "fst (change_source (JArr []) (fst (startup demo_ext))) = Inl AttributeError"
  by (simp add: change_source_def dict_get_def)

text \<open>
  Claim C10, amended. Every request whose JSON body is an object returns
  \<open>success: true\<close> and echoes the selection it stored. If the object has no
  \<open>source\<close> member the selection stored is \<open>webcam\<close>; if it has one, its value is
  stored whatever it is.
\<close>

theorem change_source_object:
  "fst (change_source (JObj kvs) st) =
     Inr (JObj [(''success'', JBool True),
                (''source'', current_video_source (snd (change_source (JObj kvs) st)))]) \<and>
   (''source'' \<notin> fst ` set kvs \<longrightarrow>
      current_video_source (snd (change_source (JObj kvs) st)) = JStr ''webcam'') \<and>
   (distinct (map fst kvs) \<and> (''source'', v) \<in> set kvs \<longrightarrow>
      current_video_source (snd (change_source (JObj kvs) st)) = v)"
proof -
  have 1: "''source'' \<notin> fst ` set kvs \<Longrightarrow> map_of (rev kvs) ''source'' = None"
    by (simp add: map_of_eq_None_iff)
  have 2: "distinct (map fst kvs) \<Longrightarrow> (''source'', v) \<in> set kvs \<Longrightarrow>
           map_of (rev kvs) ''source'' = Some v"
    by (simp add: distinct_rev rev_map[symmetric])
  show ?thesis using 1 2
    by (auto simp: change_source_def dict_get_def Let_def split: option.splits)
qed

theorem change_source_object_witness:
  "''source'' \<notin> fst ` set [(''camera'', JInt 1)] \<and>
   change_source (JObj [(''camera'', JInt 1)]) (fst (startup demo_ext)) =
     (Inr (JObj [(''success'', JBool True), (''source'', JStr ''webcam'')]),
      (fst (startup demo_ext))\<lparr>current_video_source := JStr ''webcam''\<rparr>) \<and>
   distinct (map fst [(''source'', JInt 5)]) \<and> (''source'', JInt 5) \<in> set [(''source'', JInt 5)] \<and>
   fst (change_source (JObj [(''source'', JInt 5)]) (fst (startup demo_ext))) =
     Inr (JObj [(''success'', JBool True), (''source'', JInt 5)])"
  using change_source_object[of "[(''camera'', JInt 1)]" "fst (startup demo_ext)" "JInt 5"]
    change_source_object[of "[(''source'', JInt 5)]" "fst (startup demo_ext)" "JInt 5"]
  by (simp add: change_source_def dict_get_def)

lemma change_source_obj_str:
  "change_source (JObj [(''source'', v)]) st =
     (Inr (JObj [(''success'', JBool True), (''source'', v)]), st\<lparr>current_video_source := v\<rparr>)"
  by (simp add: change_source_def dict_get_def)

text \<open>
  Claim C5. The request with body \<open>{"source": "sample.mp4"}\<close> returns
  \<open>{"success": true, "source": "sample.mp4"}\<close>. After it, and after any further
  events of the server that are not another \<open>/change_source\<close> request, a video stream
  that starts opens its capture on \<open>sample.mp4\<close> joined to the working directory and
  reads what the outside world gives for that path, not device 0.
\<close>

theorem change_source_to_file:
  "change_source (JObj [(''source'', JStr ''sample.mp4'')]) st =
     (Inr (JObj [(''success'', JBool True), (''source'', JStr ''sample.mp4'')]),
      st\<lparr>current_video_source := JStr ''sample.mp4''\<rparr>) \<and>
   (list_all (\<lambda>ev. \<not> is_change_source ev) evs \<longrightarrow>
      (\<exists>cap. gen_capture (fst (snd (generate_frames_next ext now GenCreated
                (globals (server_run ext
                   (server_step ext sv (ChangeSource (JObj [(''source'', JStr ''sample.mp4'')])))
                   evs))))) = Some cap \<and>
         cap_arg cap = CapName (os_path_join (getcwd (os ext)) [''sample.mp4'']) \<and>
         cap_arg cap \<noteq> CapIndex 0 \<and>
         read_results cap =
           snd (VideoCapture ext (CapName (os_path_join (getcwd (os ext)) [''sample.mp4''])))))"
proof -
  let ?body = "JObj [(''source'', JStr ''sample.mp4'')]"
  note r = change_source_obj_str
  {
    assume n: "list_all (\<lambda>ev. \<not> is_change_source ev) evs"
    let ?st = "globals (server_run ext (server_step ext sv (ChangeSource ?body)) evs)"
    let ?p = "os_path_join (getcwd (os ext)) [''sample.mp4'']"
    have "current_video_source ?st = JStr ''sample.mp4''"
      using server_run_source[OF n, of ext "server_step ext sv (ChangeSource ?body)"]
      by (simp add: server_step_def r)
    then have g: "get_video_source ext ?st = Inr (open_capture ext (CapName ?p))"
      by (simp add: get_video_source_def)
    obtain cap where c: "gen_capture (fst (snd (frames_loop ext now (open_capture ext (CapName ?p)) ?st))) = Some cap"
      "cap_arg cap = cap_arg (open_capture ext (CapName ?p))"
      "read_results cap = read_results (open_capture ext (CapName ?p))"
      using frames_loop_capture by blast
    have "gen_capture (fst (snd (generate_frames_next ext now GenCreated ?st))) = Some cap"
      using g c(1) by (simp add: generate_frames_next_def)
    moreover have "cap_arg cap = CapName ?p" using c(2) by (simp add: open_capture_arg)
    moreover have "read_results cap = snd (VideoCapture ext (CapName ?p))"
      using c(3) by (simp add: open_capture_def split: prod.splits)
    ultimately have "\<exists>cap. gen_capture (fst (snd (generate_frames_next ext now GenCreated ?st))) = Some cap \<and>
         cap_arg cap = CapName ?p \<and> cap_arg cap \<noteq> CapIndex 0 \<and>
         read_results cap = snd (VideoCapture ext (CapName ?p))"
      by auto
  }
  then show ?thesis using r by blast
qed

theorem change_source_to_file_witness:
  "list_all (\<lambda>ev. \<not> is_change_source ev) [VideoFeed, Advance 0 1] \<and>
   (\<exists>cap. gen_capture (fst (snd (generate_frames_next demo_ext 2 GenCreated
              (globals (server_run demo_ext
                 (server_step demo_ext (server_start demo_ext)
                    (ChangeSource (JObj [(''source'', JStr ''sample.mp4'')])))
                 [VideoFeed, Advance 0 1]))))) = Some cap \<and>
      cap_arg cap = CapName ''/srv/app/sample.mp4'')"
proof -
  have h: "list_all (\<lambda>ev. \<not> is_change_source ev) [VideoFeed, Advance 0 1]"
    by simp
  have p: "os_path_join (getcwd (os demo_ext)) [''sample.mp4''] = ''/srv/app/sample.mp4''"
    by (simp add: demo_ext_def demo_host_def os_path_join_def join2_def)
  from h change_source_to_file[where evs = "[VideoFeed, Advance 0 1]" and ext = demo_ext
      and now = 2 and sv = "server_start demo_ext" and st = "fst (startup demo_ext)"]
  obtain cap where
    "gen_capture (fst (snd (generate_frames_next demo_ext 2 GenCreated
              (globals (server_run demo_ext
                 (server_step demo_ext (server_start demo_ext)
                    (ChangeSource (JObj [(''source'', JStr ''sample.mp4'')])))
                 [VideoFeed, Advance 0 1]))))) = Some cap"
    "cap_arg cap = CapName (os_path_join (getcwd (os demo_ext)) [''sample.mp4''])"
    by blast
  with h p show ?thesis by auto
qed

section \<open>The count_updates route\<close>

lemma py_str_0: "py_str 0 = ''0''"
  by (simp add: py_str_def digit_char_def)

lemma count_message_eq:
  "count_message st =
     ''data: '' @ py_str (case detection_history st of [] \<Rightarrow> 0 | _ \<Rightarrow> snd (last (detection_history st)))
       @ [LF, LF]"
  by (cases "detection_history st")
     (simp_all add: count_message_def py_str_0 split: prod.splits)

lemma generate_counts_run_Suspended:
  "length (generate_counts_run CountsSuspended sts) = length sts \<and>
   (\<forall>i < length sts. generate_counts_run CountsSuspended sts ! i =
       ([1 / 2], Yield (count_message (sts ! i))))"
proof (induction sts)
  case Nil
  then show ?case by simp
next
  case (Cons st sts)
  then show ?case
    by (auto simp: generate_counts_next_def nth_Cons split: nat.splits)
qed

text \<open>
  Claim C7. With an empty history the first step of the generator yields
  \<open>data: 0\<close> followed by two line feeds. Every step, the first and the later ones,
  yields one message with the count of the last sample of the history, or 0 if there is
  none; every step but the first sleeps 0.5 once before it. The generator never stops
  by itself: over any number of steps it yields one message in each.
\<close>

theorem count_updates_stream:
  "(detection_history st = [] \<longrightarrow>
      generate_counts_next CountsCreated st =
        ([], Yield (''data: 0'' @ [LF, LF]), CountsSuspended)) \<and>
   generate_counts_next CountsCreated st =
     ([], Yield (''data: '' @ py_str (case detection_history st of [] \<Rightarrow> 0
                                      | _ \<Rightarrow> snd (last (detection_history st))) @ [LF, LF]),
      CountsSuspended) \<and>
   generate_counts_next CountsSuspended st =
     ([1 / 2], Yield (''data: '' @ py_str (case detection_history st of [] \<Rightarrow> 0
                                      | _ \<Rightarrow> snd (last (detection_history st))) @ [LF, LF]),
      CountsSuspended) \<and>
   length (generate_counts_run CountsCreated sts) = length sts \<and>
   (\<forall>i < length sts. generate_counts_run CountsCreated sts ! i =
       ((if i = 0 then [] else [1 / 2]), Yield (count_message (sts ! i))))"
proof -
  have a: "generate_counts_next CountsCreated st = ([], Yield (count_message st), CountsSuspended)"
    by (simp add: generate_counts_next_def)
  have b: "generate_counts_next CountsSuspended st =
             ([1 / 2], Yield (count_message st), CountsSuspended)"
    by (simp add: generate_counts_next_def)
  have c: "detection_history st = [] \<Longrightarrow> count_message st = ''data: 0'' @ [LF, LF]"
    by (simp add: count_message_def)
  have d: "length (generate_counts_run CountsCreated sts) = length sts \<and>
   (\<forall>i < length sts. generate_counts_run CountsCreated sts ! i =
       ((if i = 0 then [] else [1 / 2]), Yield (count_message (sts ! i))))"
  proof (cases sts)
    case Nil
    then show ?thesis by simp
  next
    case (Cons s rest)
    with generate_counts_run_Suspended[of rest] show ?thesis
      by (auto simp: generate_counts_next_def nth_Cons split: nat.splits)
  qed
  show ?thesis
    using a b c d count_message_eq[of st] by simp
qed

theorem count_updates_stream_witness:
  "detection_history (fst (startup demo_ext)) = [] \<and>
   generate_counts_next CountsCreated (fst (startup demo_ext)) =
     ([], Yield (''data: 0'' @ [LF, LF]), CountsSuspended) \<and>
   (0::nat) < length [fst (startup demo_ext), full_state] \<and>
   generate_counts_run CountsCreated [fst (startup demo_ext), full_state] ! 0 =
     ([], Yield (count_message (fst (startup demo_ext)))) \<and>
   (1::nat) < length [fst (startup demo_ext), full_state] \<and>
   generate_counts_run CountsCreated [fst (startup demo_ext), full_state] ! 1 =
     ([1 / 2], Yield (count_message full_state))"
proof -
  have e: "detection_history (fst (startup demo_ext)) = []"
    by (simp add: startup_def Let_def split: prod.splits)
  from count_updates_stream[of "fst (startup demo_ext)" "[fst (startup demo_ext), full_state]"]
  have first: "generate_counts_next CountsCreated (fst (startup demo_ext)) =
     ([], Yield (''data: 0'' @ [LF, LF]), CountsSuspended)"
    and all: "\<forall>i < length [fst (startup demo_ext), full_state].
      generate_counts_run CountsCreated [fst (startup demo_ext), full_state] ! i =
       ((if i = 0 then [] else [1 / 2]), Yield (count_message ([fst (startup demo_ext), full_state] ! i)))"
    using e by blast+
  show ?thesis
    using e first all[rule_format, of 0] all[rule_format, of 1]
    by (simp del: generate_counts_run.simps)
qed

lemma demo_startup:
  "fst (startup demo_ext) =
     \<lparr>MODEL_PATH = ''yolov8n.pt'', model = 0, total_bags_counted = 0,
      detection_history = [], current_video_source = JStr ''webcam''\<rparr>"
  by (simp add: startup_def demo_ext_def demo_host_def os_path_join_def join2_def)

lemma demo_process_frame:
  "process_frame demo_ext now frame st =
     ((frame, count_boxes (map (\<lambda>(i, c). \<lparr>cls = c, box_id = model st + i + 1\<rparr>) (enumerate 0 frame)) 0),
      st\<lparr>model := model st + length frame,
         detection_history := record_sample now
            (count_boxes (map (\<lambda>(i, c). \<lparr>cls = c, box_id = model st + i + 1\<rparr>) (enumerate 0 frame)) 0)
            (detection_history st)\<rparr>)"
  by (simp add: process_frame_def demo_ext_def demo_track_def gunny_bag_class_id_def Let_def)

lemma demo_webcam_open:
  "open_capture demo_ext (CapIndex 0) = webcam_cap\<lparr>read_pos := 0\<rparr>"
  by (simp add: open_capture_def demo_ext_def demo_capture_def webcam_cap_def)

lemma webcam_server_eq:
  "webcam_server =
     \<lparr>globals = (fst (startup demo_ext))\<lparr>model := 1, detection_history := [(1, 1)]\<rparr>,
      streams = [GenSuspended webcam_cap]\<rparr>"
  by (simp add: webcam_server_def server_run_def server_step_def server_start_def
        generate_frames_next_def get_video_source_def demo_webcam_open frames_loop_def
        cap_read_def demo_process_frame demo_startup webcam_cap_def count_boxes_def
        record_sample_def enumerate_eq_zip)


section \<open>The video stream\<close>

lemma next_capture_kept:
  assumes "gen_capture g = Some cap"
  shows "\<exists>cap'. gen_capture (fst (snd (generate_frames_next ext now g st))) = Some cap' \<and>
           cap_arg cap' = cap_arg cap \<and> read_results cap' = read_results cap"
proof (cases g)
  case GenCreated
  with assms show ?thesis by (simp add: gen_capture_def)
next
  case (GenSuspended c)
  with assms have "c = cap" by (simp add: gen_capture_def)
  with GenSuspended frames_loop_capture[of ext now cap st] show ?thesis
    by (simp add: generate_frames_next_def)
next
  case (GenFinished c)
  with assms show ?thesis by (simp add: generate_frames_next_def gen_capture_def)
qed

lemma close_capture_kept:
  assumes "gen_capture g = Some cap"
  shows "\<exists>cap'. gen_capture (generate_frames_close g) = Some cap' \<and>
           cap_arg cap' = cap_arg cap \<and> read_results cap' = read_results cap"
  using assms
  by (cases g) (auto simp: generate_frames_close_def gen_capture_def cap_release_def)

lemma server_step_length: "length (streams sv) \<le> length (streams (server_step ext sv ev))"
  by (cases ev) (auto simp: server_step_def split: prod.splits)

lemma server_step_capture_kept:
  assumes "i < length (streams sv)" and "gen_capture (streams sv ! i) = Some cap"
  shows "\<exists>cap'. gen_capture (streams (server_step ext sv ev) ! i) = Some cap' \<and>
           cap_arg cap' = cap_arg cap \<and> read_results cap' = read_results cap"
proof (cases ev)
  case VideoFeed
  with assms show ?thesis by (simp add: server_step_def nth_append)
next
  case (Advance j now)
  show ?thesis
  proof (cases "j < length (streams sv)")
    case False
    with Advance assms show ?thesis by (simp add: server_step_def)
  next
    case True
    have st: "streams (server_step ext sv ev) =
          (streams sv)[j := fst (snd (generate_frames_next ext now (streams sv ! j) (globals sv)))]"
      using Advance True by (simp add: server_step_def split: prod.splits)
    show ?thesis
    proof (cases "j = i")
      case True
      with st assms next_capture_kept[OF assms(2), of ext now "globals sv"] show ?thesis
        by simp
    next
      case False
      with st assms show ?thesis by simp
    qed
  qed
next
  case (Disconnect j)
  show ?thesis
  proof (cases "j < length (streams sv) \<and> j = i")
    case True
    with Disconnect assms close_capture_kept[OF assms(2)] show ?thesis
      by (simp add: server_step_def)
  next
    case False
    with Disconnect assms show ?thesis by (auto simp: server_step_def)
  qed
next
  case (ChangeSource data)
  with assms show ?thesis by (simp add: server_step_def)
qed

lemma server_run_capture_kept:
  "i < length (streams sv) \<Longrightarrow> gen_capture (streams sv ! i) = Some cap \<Longrightarrow>
   i < length (streams (server_run ext sv evs)) \<and>
   (\<exists>cap'. gen_capture (streams (server_run ext sv evs) ! i) = Some cap' \<and>
           cap_arg cap' = cap_arg cap \<and> read_results cap' = read_results cap)"
proof (induction evs arbitrary: sv cap)
  case Nil
  then show ?case by (simp add: server_run_def)
next
  case (Cons ev evs)
  from server_step_capture_kept[OF Cons.prems, of ext ev]
  obtain c where c: "gen_capture (streams (server_step ext sv ev) ! i) = Some c"
    "cap_arg c = cap_arg cap" "read_results c = read_results cap" by blast
  have l: "i < length (streams (server_step ext sv ev))"
    using Cons.prems(1) server_step_length[of sv ext ev] by simp
  from Cons.IH[OF l c(1)] c(2,3) show ?case
    by (simp add: server_run_def)
qed






lemma frames_loop_released: "finished_released (fst (snd (frames_loop ext now cap st)))"
  by (simp add: frames_loop_def finished_released_def cap_release_def cap_read_def Let_def
        split: option.splits prod.splits)

lemma next_released:
  assumes "finished_released g"
  shows "finished_released (fst (snd (generate_frames_next ext now g st)))"
proof (cases g)
  case GenCreated
  then show ?thesis
    by (cases "get_video_source ext st")
       (simp_all add: generate_frames_next_def frames_loop_released, simp add: finished_released_def)
next
  case (GenSuspended cap)
  then show ?thesis by (simp add: generate_frames_next_def frames_loop_released)
next
  case (GenFinished c)
  with assms show ?thesis by (simp add: generate_frames_next_def)
qed

lemma close_released: "finished_released g \<Longrightarrow> finished_released (generate_frames_close g)"
  by (cases g) (auto simp: generate_frames_close_def finished_released_def cap_release_def)

lemma list_all_update: "list_all P xs \<Longrightarrow> P y \<Longrightarrow> list_all P (xs[i := y])"
  using set_update_subset_insert[of xs i y] by (auto simp: list_all_iff)

lemma server_step_released:
  assumes "list_all finished_released (streams sv)"
  shows "list_all finished_released (streams (server_step ext sv ev))"
proof (cases ev)
  case VideoFeed
  with assms show ?thesis by (simp add: server_step_def finished_released_def)
next
  case (Advance j now)
  show ?thesis
  proof (cases "j < length (streams sv)")
    case False
    with Advance assms show ?thesis by (simp add: server_step_def)
  next
    case True
    have st: "streams (server_step ext sv ev) =
          (streams sv)[j := fst (snd (generate_frames_next ext now (streams sv ! j) (globals sv)))]"
      using Advance True by (simp add: server_step_def split: prod.splits)
    have "finished_released (streams sv ! j)"
      using assms True by (simp add: list_all_length)
    then show ?thesis unfolding st
      by (intro list_all_update assms next_released)
  qed
next
  case (Disconnect j)
  show ?thesis
  proof (cases "j < length (streams sv)")
    case False
    with Disconnect assms show ?thesis by (simp add: server_step_def)
  next
    case True
    have "finished_released (streams sv ! j)"
      using assms True by (simp add: list_all_length)
    with Disconnect True assms show ?thesis
      by (simp add: server_step_def list_all_update close_released)
  qed
next
  case (ChangeSource data)
  with assms show ?thesis by (simp add: server_step_def)
qed

lemma server_run_released:
  "list_all finished_released (streams sv) \<Longrightarrow>
   list_all finished_released (streams (server_run ext sv evs))"
  unfolding server_run_def
  by (induction evs arbitrary: sv) (simp_all add: server_step_released)

lemma next_failed_read:
  assumes "g = GenSuspended cap \<or> g = GenCreated \<and> get_video_source ext st = Inr cap"
    and "is_opened cap" and "read_results cap (read_pos cap) = None"
  shows "generate_frames_next ext now g st =
     (StopIteration, GenFinished (Some (cap_release (cap\<lparr>read_pos := Suc (read_pos cap)\<rparr>))), st)"
  using assms by (auto simp: generate_frames_next_def frames_loop_def cap_read_def)

lemma next_good_read:
  assumes "g = GenSuspended cap \<or> g = GenCreated \<and> get_video_source ext st = Inr cap"
    and "is_opened cap" and "read_results cap (read_pos cap) = Some frame"
  shows "generate_frames_next ext now g st =
     (Yield (frame_part (imencode ext (fst (fst (process_frame ext now frame st))))),
      GenSuspended (cap\<lparr>read_pos := Suc (read_pos cap)\<rparr>),
      snd (process_frame ext now frame st))"
  using assms
  by (auto simp: generate_frames_next_def frames_loop_def cap_read_def Let_def split: prod.splits)

lemma next_not_opened:
  assumes "g = GenSuspended cap \<or> g = GenCreated \<and> get_video_source ext st = Inr cap"
    and "\<not> is_opened cap"
  shows "generate_frames_next ext now g st =
     (StopIteration, GenFinished (Some (cap_release cap)), st)"
  using assms by (auto simp: generate_frames_next_def frames_loop_def)

text \<open>
  Claim C6. A step of a stream whose capture is open and whose read fails ends the
  stream: it makes that one read, releases the capture and stops, and the globals are
  untouched. A read that succeeds yields the part made from that very frame and moves on
  by one read. A capture that is not open is released and the stream stops. A finished
  stream stays finished and reads no more. Closing a suspended stream, as a disconnect
  does, releases its capture. On every run of the server, every finished stream that had
  a capture has released it, and a stream that holds a capture never loses it.
\<close>

theorem failed_read_ends_stream_and_releases:
  "((g = GenSuspended cap \<or> g = GenCreated \<and> get_video_source ext st = Inr cap) \<and>
    is_opened cap \<and> read_results cap (read_pos cap) = None \<longrightarrow>
      generate_frames_next ext now g st =
        (StopIteration, GenFinished (Some (cap_release (cap\<lparr>read_pos := Suc (read_pos cap)\<rparr>))),
         st)) \<and>
   ((g = GenSuspended cap \<or> g = GenCreated \<and> get_video_source ext st = Inr cap) \<and>
    is_opened cap \<and> read_results cap (read_pos cap) = Some frame \<longrightarrow>
      generate_frames_next ext now g st =
        (Yield (frame_part (imencode ext (fst (fst (process_frame ext now frame st))))),
         GenSuspended (cap\<lparr>read_pos := Suc (read_pos cap)\<rparr>),
         snd (process_frame ext now frame st))) \<and>
   ((g = GenSuspended cap \<or> g = GenCreated \<and> get_video_source ext st = Inr cap) \<and>
    \<not> is_opened cap \<longrightarrow>
      generate_frames_next ext now g st =
        (StopIteration, GenFinished (Some (cap_release cap)), st)) \<and>
   generate_frames_next ext now (GenFinished c) st = (StopIteration, GenFinished c, st) \<and>
   generate_frames_close (GenSuspended cap) = GenFinished (Some (cap_release cap)) \<and>
   released (cap_release cap) \<and>
   list_all finished_released (streams (server_run ext (server_start ext) evs)) \<and>
   (i < length (streams (server_run ext (server_start ext) evs)) \<and>
    gen_capture (streams (server_run ext (server_start ext) evs) ! i) = Some cap \<longrightarrow>
      (\<exists>cap'. gen_capture (streams (server_run ext (server_start ext) (evs @ evs')) ! i) = Some cap'))"
proof -
  have a: "(g = GenSuspended cap \<or> g = GenCreated \<and> get_video_source ext st = Inr cap) \<and>
    is_opened cap \<and> read_results cap (read_pos cap) = None \<longrightarrow>
      generate_frames_next ext now g st =
        (StopIteration, GenFinished (Some (cap_release (cap\<lparr>read_pos := Suc (read_pos cap)\<rparr>))),
         st)"
    using next_failed_read[of g cap ext st now] by simp
  have b: "(g = GenSuspended cap \<or> g = GenCreated \<and> get_video_source ext st = Inr cap) \<and>
    is_opened cap \<and> read_results cap (read_pos cap) = Some frame \<longrightarrow>
      generate_frames_next ext now g st =
        (Yield (frame_part (imencode ext (fst (fst (process_frame ext now frame st))))),
         GenSuspended (cap\<lparr>read_pos := Suc (read_pos cap)\<rparr>),
         snd (process_frame ext now frame st))"
    using next_good_read[of g cap ext st frame now] by simp
  have c: "(g = GenSuspended cap \<or> g = GenCreated \<and> get_video_source ext st = Inr cap) \<and>
    \<not> is_opened cap \<longrightarrow>
      generate_frames_next ext now g st =
        (StopIteration, GenFinished (Some (cap_release cap)), st)"
    using next_not_opened[of g cap ext st now] by simp
  have d: "generate_frames_next ext now (GenFinished c) st = (StopIteration, GenFinished c, st)"
    by (simp add: generate_frames_next_def)
  have e: "generate_frames_close (GenSuspended cap) = GenFinished (Some (cap_release cap))"
    by (simp add: generate_frames_close_def)
  have f: "released (cap_release cap)"
    by (simp add: cap_release_def)
  have h: "list_all finished_released (streams (server_run ext (server_start ext) evs))"
    by (rule server_run_released) (simp add: server_start_def)
  have k: "server_run ext (server_start ext) (evs @ evs') =
           server_run ext (server_run ext (server_start ext) evs) evs'"
    by (simp add: server_run_def)
  have l: "i < length (streams (server_run ext (server_start ext) evs)) \<and>
    gen_capture (streams (server_run ext (server_start ext) evs) ! i) = Some cap \<longrightarrow>
      (\<exists>cap'. gen_capture (streams (server_run ext (server_start ext) (evs @ evs')) ! i) = Some cap')"
    unfolding k using server_run_capture_kept[of i "server_run ext (server_start ext) evs" cap ext evs']
    by blast
  show ?thesis
    by (intro conjI a b c d e f h l)
qed

lemma demo_missing_open: "get_video_source demo_ext missing_state = Inr missing_cap"
  by (simp add: get_video_source_def missing_state_def demo_startup open_capture_def
        demo_ext_def demo_capture_def demo_host_def os_path_join_def join2_def missing_cap_def)

theorem failed_read_ends_stream_and_releases_witness:
  "is_opened file_cap \<and> read_results file_cap (read_pos file_cap) = None \<and>
   generate_frames_next demo_ext 3 (GenSuspended file_cap) (fst (startup demo_ext)) =
     (StopIteration, GenFinished (Some (cap_release (file_cap\<lparr>read_pos := 3\<rparr>))),
      fst (startup demo_ext)) \<and>
   is_opened webcam_cap \<and> read_results webcam_cap (read_pos webcam_cap) = Some [0] \<and>
   fst (snd (generate_frames_next demo_ext 2 (GenSuspended webcam_cap) (fst (startup demo_ext)))) =
     GenSuspended (webcam_cap\<lparr>read_pos := 2\<rparr>) \<and>
   get_video_source demo_ext missing_state = Inr missing_cap \<and> \<not> is_opened missing_cap \<and>
   generate_frames_next demo_ext 1 GenCreated missing_state =
     (StopIteration, GenFinished (Some (cap_release missing_cap)), missing_state) \<and>
   (0::nat) < length (streams (server_run demo_ext (server_start demo_ext) [VideoFeed, Advance 0 1])) \<and>
   gen_capture (streams (server_run demo_ext (server_start demo_ext) [VideoFeed, Advance 0 1]) ! 0) =
     Some webcam_cap \<and>
   (\<exists>cap'. gen_capture (streams (server_run demo_ext (server_start demo_ext)
               ([VideoFeed, Advance 0 1] @ [Disconnect 0])) ! 0) = Some cap')"
proof -
  have f: "is_opened file_cap \<and> read_results file_cap (read_pos file_cap) = None"
    by (simp add: file_cap_def)
  have w: "is_opened webcam_cap \<and> read_results webcam_cap (read_pos webcam_cap) = Some [0]"
    by (simp add: webcam_cap_def)
  have m: "\<not> is_opened missing_cap"
    by (simp add: missing_cap_def)
  have s: "0 < length (streams (server_run demo_ext (server_start demo_ext) [VideoFeed, Advance 0 1])) \<and>
           gen_capture (streams (server_run demo_ext (server_start demo_ext) [VideoFeed, Advance 0 1]) ! 0) =
             Some webcam_cap"
    using webcam_server_eq by (simp add: webcam_server_def gen_capture_def)
  have p: "read_pos file_cap = 2" "read_pos webcam_cap = 1"
    by (simp_all add: file_cap_def webcam_cap_def)
  note t1 = failed_read_ends_stream_and_releases[where g = "GenSuspended file_cap" and cap = file_cap
      and ext = demo_ext and st = "fst (startup demo_ext)" and now = 3 and evs = "[]" and i = 0]
  note t2 = failed_read_ends_stream_and_releases[where g = "GenSuspended webcam_cap"
      and cap = webcam_cap and ext = demo_ext and st = "fst (startup demo_ext)" and now = 2
      and frame = "[0]" and evs = "[VideoFeed, Advance 0 1]" and i = 0 and evs' = "[Disconnect 0]"]
  note t3 = failed_read_ends_stream_and_releases[where g = GenCreated and cap = missing_cap
      and ext = demo_ext and st = missing_state and now = 1 and evs = "[]" and i = 0]
  have r1: "generate_frames_next demo_ext 3 (GenSuspended file_cap) (fst (startup demo_ext)) =
     (StopIteration, GenFinished (Some (cap_release (file_cap\<lparr>read_pos := 3\<rparr>))),
      fst (startup demo_ext))"
    using t1 f p by simp
  have r2: "fst (snd (generate_frames_next demo_ext 2 (GenSuspended webcam_cap) (fst (startup demo_ext)))) =
     GenSuspended (webcam_cap\<lparr>read_pos := 2\<rparr>)"
    using t2 w p by simp
  have r3: "generate_frames_next demo_ext 1 GenCreated missing_state =
     (StopIteration, GenFinished (Some (cap_release missing_cap)), missing_state)"
    using t3 m demo_missing_open by simp
  have r4: "\<exists>cap'. gen_capture (streams (server_run demo_ext (server_start demo_ext)
               ([VideoFeed, Advance 0 1] @ [Disconnect 0])) ! 0) = Some cap'"
    using t2 s by blast
  show ?thesis
    by (intro conjI conjunct1[OF f] conjunct2[OF f] conjunct1[OF w] conjunct2[OF w]
          conjunct1[OF s] conjunct2[OF s] r1 r2 r3 r4 m demo_missing_open)
qed

section \<open>The tracker across streams\<close>

lemma frames_loop_model:
  "model (snd (snd (frames_loop ext now cap st))) =
     (if is_opened cap then
        (case read_results cap (read_pos cap) of
           None \<Rightarrow> model st
         | Some frame \<Rightarrow> snd (model_track ext (model st) (enhance_contrast ext frame)))
      else model st)"
proof (cases "read_results cap (read_pos cap)")
  case None
  then show ?thesis by (simp add: frames_loop_def cap_read_def)
next
  case (Some frame)
  have "is_opened cap \<Longrightarrow>
        snd (snd (frames_loop ext now cap st)) = snd (process_frame ext now frame st)"
    using Some by (simp add: frames_loop_def cap_read_def Let_def split: prod.splits)
  then show ?thesis using Some
    by (cases "is_opened cap") (simp_all add: process_frame_model frames_loop_def)
qed

lemma server_step_model_kept:
  "(\<forall>i now. ev \<noteq> Advance i now) \<Longrightarrow> model (globals (server_step ext sv ev)) = model (globals sv)"
  by (cases ev) (simp_all add: server_step_def change_source_model)

text \<open>
  Claim C4, amended. The state of the detector object persists across the per-frame
  calls and across streams: a request for a stream, a disconnect and a
  \<open>/change_source\<close> request leave it as it is, and so does a step of a stream that
  processes no frame (a finished stream, a failed read, a capture that did not open, a
  selection that cannot be opened). A step that processes a frame, also the first step of
  a stream just opened on whatever selection, passes the state as it stands to the
  detector and stores what the detector returns.
\<close>

theorem tracker_state_never_reset:
  "model (globals (server_step ext sv VideoFeed)) = model (globals sv) \<and>
   model (globals (server_step ext sv (Disconnect i))) = model (globals sv) \<and>
   model (globals (server_step ext sv (ChangeSource data))) = model (globals sv) \<and>
   model (snd (snd (generate_frames_next ext now (GenFinished c) st))) = model st \<and>
   ((g = GenSuspended cap \<or> g = GenCreated \<and> get_video_source ext st = Inr cap) \<longrightarrow>
      model (snd (snd (generate_frames_next ext now g st))) =
        (if is_opened cap then
           (case read_results cap (read_pos cap) of
              None \<Rightarrow> model st
            | Some frame \<Rightarrow> snd (model_track ext (model st) (enhance_contrast ext frame)))
         else model st)) \<and>
   (g = GenCreated \<and> get_video_source ext st = Inl e \<longrightarrow>
      model (snd (snd (generate_frames_next ext now g st))) = model st)"
proof -
  have a: "model (globals (server_step ext sv VideoFeed)) = model (globals sv)"
    by (simp add: server_step_model_kept)
  have b: "model (globals (server_step ext sv (Disconnect i))) = model (globals sv)"
    by (simp add: server_step_model_kept)
  have c: "model (globals (server_step ext sv (ChangeSource data))) = model (globals sv)"
    by (simp add: server_step_model_kept)
  have d: "model (snd (snd (generate_frames_next ext now (GenFinished c) st))) = model st"
    by (simp add: generate_frames_next_def)
  have e: "(g = GenSuspended cap \<or> g = GenCreated \<and> get_video_source ext st = Inr cap) \<longrightarrow>
      model (snd (snd (generate_frames_next ext now g st))) =
        (if is_opened cap then
           (case read_results cap (read_pos cap) of
              None \<Rightarrow> model st
            | Some frame \<Rightarrow> snd (model_track ext (model st) (enhance_contrast ext frame)))
         else model st)"
    using frames_loop_model[of ext now cap st] by (auto simp: generate_frames_next_def)
  have f: "g = GenCreated \<and> get_video_source ext st = Inl e \<longrightarrow>
      model (snd (snd (generate_frames_next ext now g st))) = model st"
    by (simp add: generate_frames_next_def)
  show ?thesis by (intro conjI a b c d e f)
qed

lemma reopened_server_eq:
  "reopened_server =
     \<lparr>globals = (fst (startup demo_ext))\<lparr>model := 1, detection_history := [(1, 1)],
                  current_video_source := JStr ''sample.mp4''\<rparr>,
      streams = [GenFinished (Some (cap_release webcam_cap)), GenCreated]\<rparr>"
proof -
  have "reopened_server =
      server_run demo_ext webcam_server [Disconnect 0, ChangeSource sample_body, VideoFeed]"
    by (simp add: reopened_server_def webcam_server_def server_run_def)
  then show ?thesis
    by (simp add: webcam_server_eq server_run_def server_step_def generate_frames_close_def
          sample_body_def change_source_obj_str)
qed

text \<open>
  Claim C4, as stated, fails. On the concrete installation a stream on the webcam
  processes one frame and is left, the selection is changed to the sample file and a new
  stream is requested. The detector state is then not the one of start-up: a fresh
  detector numbers its first box 1, while the first frame of the new stream gets the
  numbers 2, 3 and 4, which continue those of the webcam stream.
\<close>

theorem tracker_reset_counterexample:
  "current_video_source (globals (server_start demo_ext)) = JStr ''webcam'' \<and>
   current_video_source (globals reopened_server) = JStr ''sample.mp4'' \<and>
   streams reopened_server ! 1 = GenCreated \<and>
   model (globals (server_start demo_ext)) = 0 \<and>
   model (globals reopened_server) = 1 \<and>
   map box_id (boxes (fst (model_track demo_ext (model (globals (server_start demo_ext))) [0]))) = [1] \<and>
   map box_id (boxes (fst (model_track demo_ext (model (globals reopened_server)) [0, 1, 0])))
     = [2, 3, 4] \<and>
   model (globals (server_step demo_ext reopened_server (Advance 1 2))) = 4"
proof -
  have a: "current_video_source (globals (server_start demo_ext)) = JStr ''webcam'' \<and>
           model (globals (server_start demo_ext)) = 0"
    by (simp add: server_start_def demo_startup)
  have b: "current_video_source (globals reopened_server) = JStr ''sample.mp4'' \<and>
           streams reopened_server ! 1 = GenCreated \<and> model (globals reopened_server) = 1"
    by (simp add: reopened_server_eq)
  have t: "model_track demo_ext = demo_track"
    by (simp add: demo_ext_def)
  have c: "map box_id (boxes (fst (demo_track 0 [0]))) = [1]"
    by (simp add: demo_track_def enumerate_eq_zip)
  have d: "map box_id (boxes (fst (demo_track 1 [0, 1, 0]))) = [2, 3, 4]"
    by (simp add: demo_track_def enumerate_eq_zip)
  have g: "get_video_source demo_ext (globals reopened_server) = Inr (file_cap\<lparr>read_pos := 0\<rparr>)"
    by (simp add: reopened_server_eq get_video_source_def open_capture_def demo_ext_def
          demo_capture_def demo_host_def os_path_join_def join2_def file_cap_def)
  have e: "model (globals (server_step demo_ext reopened_server (Advance 1 2))) = 4"
    using g
    by (simp add: server_step_def reopened_server_eq generate_frames_next_def frames_loop_def
          cap_read_def file_cap_def demo_process_frame)
  show ?thesis
    using a b c d e by (simp add: t)
qed

theorem tracker_state_never_reset_witness:
  "get_video_source demo_ext (globals reopened_server) =
     Inr (file_cap\<lparr>read_pos := 0\<rparr>) \<and>
   model (snd (snd (generate_frames_next demo_ext 2 GenCreated (globals reopened_server)))) =
     snd (model_track demo_ext (model (globals reopened_server)) [0, 1, 0]) \<and>
   get_video_source demo_ext ((fst (startup demo_ext))\<lparr>current_video_source := JInt 5\<rparr>) =
     Inl TypeError \<and>
   model (snd (snd (generate_frames_next demo_ext 2 GenCreated
      ((fst (startup demo_ext))\<lparr>current_video_source := JInt 5\<rparr>)))) = 0"
proof -
  have g: "get_video_source demo_ext (globals reopened_server) = Inr (file_cap\<lparr>read_pos := 0\<rparr>)"
    by (simp add: reopened_server_eq get_video_source_def open_capture_def demo_ext_def
          demo_capture_def demo_host_def os_path_join_def join2_def file_cap_def)
  have e: "get_video_source demo_ext ((fst (startup demo_ext))\<lparr>current_video_source := JInt 5\<rparr>) =
     Inl TypeError"
    by (simp add: get_video_source_def)
  have m: "model ((fst (startup demo_ext))\<lparr>current_video_source := JInt 5\<rparr>) = 0"
    by (simp add: demo_startup)
  have r1: "model (snd (snd (generate_frames_next demo_ext 2 GenCreated (globals reopened_server)))) =
     snd (model_track demo_ext (model (globals reopened_server)) [0, 1, 0])"
    using g tracker_state_never_reset[where g = GenCreated and ext = demo_ext
        and st = "globals reopened_server" and cap = "file_cap\<lparr>read_pos := 0\<rparr>" and now = 2]
    by (simp add: file_cap_def demo_ext_def)
  have r2: "model (snd (snd (generate_frames_next demo_ext 2 GenCreated
      ((fst (startup demo_ext))\<lparr>current_video_source := JInt 5\<rparr>)))) = 0"
    using e m tracker_state_never_reset[where g = GenCreated and ext = demo_ext
        and st = "(fst (startup demo_ext))\<lparr>current_video_source := JInt 5\<rparr>" and e = TypeError
        and now = 2]
    by simp
  show ?thesis by (intro conjI g e r1 r2)
qed

section \<open>Properties of prepare_dataset\<close>

subsection \<open>The split index\<close>

lemma div_times_le: "0 < p \<Longrightarrow> a div p * p \<le> a" for a p :: int
proof -
  assume p: "0 < p"
  have "a div p * p + a mod p = a" by simp
  moreover have "0 \<le> a mod p" using p by simp
  ultimately show ?thesis by linarith
qed

lemma int_div_less:
  fixes a p q :: int
  assumes "0 < p" "a < q * p"
  shows "a div p < q"
proof (rule ccontr)
  assume "\<not> a div p < q"
  then have "q \<le> a div p" by simp
  then have "q * p \<le> a div p * p" using assms(1) by (simp add: mult_right_mono)
  also have "\<dots> \<le> a" using assms(1) by (rule div_times_le)
  finally show False using assms(2) by simp
qed

lemma round_half_even_bounds:
  assumes "0 < s"
  shows "a div 2 ^ s \<le> round_half_even a s" and "round_half_even a s \<le> a div 2 ^ s + 1"
    and "round_half_even a s = a div 2 ^ s + 1 \<Longrightarrow> 0 < a mod 2 ^ s"
proof -
  have h: "(0::int) < 2 ^ (s - 1)" by simp
  show "a div 2 ^ s \<le> round_half_even a s" "round_half_even a s \<le> a div 2 ^ s + 1"
    using assms by (simp_all add: round_half_even_def Let_def)
  show "0 < a mod 2 ^ s" if "round_half_even a s = a div 2 ^ s + 1"
  proof -
    have "2 ^ (s - 1) \<le> a mod 2 ^ s"
      using that assms by (auto simp: round_half_even_def Let_def split: if_splits)
    with h show ?thesis by linarith
  qed
qed

lemma trunc_rounded:
  fixes A q' :: int
  assumes q: "A div 2 ^ s \<le> q'" "q' \<le> A div 2 ^ s + 1"
    and r: "q' = A div 2 ^ s + 1 \<Longrightarrow> 0 < A mod 2 ^ s"
  shows "A div 2 ^ (s + t) \<le> q' div 2 ^ t" and "(q' div 2 ^ t - 1) * 2 ^ (s + t) < A"
proof -
  let ?P = "(2::int) ^ s" and ?T = "(2::int) ^ t"
  let ?q = "A div ?P" and ?k = "q' div ?T"
  have P: "0 < ?P" and T: "1 \<le> ?T" by simp_all
  have "A div 2 ^ (s + t) = ?q div ?T"
    by (simp add: power_add zdiv_zmult2_eq)
  also have "\<dots> \<le> ?k" using q(1) by (simp add: zdiv_mono1)
  finally show "A div 2 ^ (s + t) \<le> ?k" .
  have kT: "?k * ?T \<le> q'"
    by (rule div_times_le) simp
  have A: "A = ?q * ?P + A mod ?P" by (rule div_mult_mod_eq[symmetric])
  have m0: "0 \<le> A mod ?P" by simp
  have "(?k - 1) * ?T = ?k * ?T - ?T" by (simp add: algebra_simps)
  with kT T have le: "(?k - 1) * ?T \<le> q' - 1" by linarith
  show "(?k - 1) * 2 ^ (s + t) < A"
  proof (cases "q' = ?q + 1")
    case True
    then have "(?k - 1) * ?T \<le> ?q" using le by simp
    then have "(?k - 1) * ?T * ?P \<le> ?q * ?P"
      using P by (simp add: mult_right_mono)
    also have "\<dots> < A" using r[OF True] A by linarith
    finally show ?thesis by (simp add: power_add mult.commute mult.left_commute)
  next
    case False
    with q have "q' = ?q" by simp
    then have "(?k - 1) * ?T \<le> ?q - 1" using le by simp
    then have "(?k - 1) * ?T * ?P \<le> (?q - 1) * ?P"
      using P by (simp add: mult_right_mono)
    also have "\<dots> < ?q * ?P" using P by (simp add: algebra_simps)
    also have "\<dots> \<le> A" using A m0 by linarith
    finally show ?thesis by (simp add: power_add mult.commute mult.left_commute)
  qed
qed


lemma float_val_nonneg: "0 \<le> float_val m e \<longleftrightarrow> 0 \<le> m"
proof -
  have p: "\<not> (2::int) ^ k \<le> 0" "\<not> (2::real) ^ k \<le> 0" for k
    by (simp_all add: not_le)
  show ?thesis
    by (auto simp: float_val_def zero_le_mult_iff zero_le_divide_iff p)
qed

lemma make_float_exact:
  assumes "bitlen \<bar>m\<bar> \<le> 53" "- 1074 \<le> e" "m \<noteq> 0 \<Longrightarrow> bitlen \<bar>m\<bar> + e \<le> 1024"
  shows "make_float m e = Finite m e"
  using assms by (auto simp: make_float_def finite_or_inf_def Let_def)

lemma py_int_nonneg:
  assumes "0 \<le> q"
  shows "py_int (Finite q (- int t)) = Inr (q div 2 ^ t)"
proof (cases "t = 0")
  case True
  then show ?thesis by (simp add: py_int_def)
next
  case False
  then show ?thesis using assms by (cases "q = 0") (simp_all add: py_int_def)
qed

lemma split_index_bounds:
  fixes M m e :: int
  assumes M: "0 \<le> M" "M < 2 ^ 53" and v: "0 \<le> float_val m e" "float_val m e \<le> 1"
  shows "\<exists>k. split_index M (Finite m e) = Inr k \<and>
             \<lfloor>of_int M * float_val m e\<rfloor> \<le> k \<and> k \<le> \<lceil>of_int M * float_val m e\<rceil>"
proof -
  have m0: "0 \<le> m" using v(1) by (simp add: float_val_nonneg)
  have bM: "bitlen \<bar>M\<bar> \<le> 53"
    using M by (simp add: bitlen_le_iff_power)
  have fM: "make_float M 0 = Finite M 0"
    using bM by (intro make_float_exact) simp_all
  let ?A = "M * m"
  have A0: "0 \<le> ?A" using M(1) m0 by simp
  have si: "split_index M (Finite m e) = py_int (make_float ?A e)"
    by (simp add: split_index_def len_times_def fM)
  show ?thesis
  proof (cases "0 \<le> e")
    case True
    let ?n = "nat e"
    have val: "float_val m e = of_int (m * 2 ^ ?n)"
      using True by (simp add: float_val_def)
    have m1: "m * 2 ^ ?n \<le> 1"
      using v(2) unfolding val by linarith
    have "m \<le> m * 2 ^ ?n" using m0 by (simp add: mult_le_cancel_left1)
    with m1 have mle: "m \<le> 1" by linarith
    have e0: "e = 0" if "m \<noteq> 0"
    proof -
      from that m0 mle have "m = 1" by linarith
      with m1 have "(2::int) ^ ?n \<le> 1" by simp
      then have "?n = 0" by (metis not_less one_less_numeral_iff one_less_power semiring_norm(76) gr0I)
      with True show ?thesis by simp
    qed
    have "?A \<le> M" using M(1) mle by (simp add: mult_left_le)
    with M(2) A0 have bA: "bitlen \<bar>?A\<bar> \<le> 53"
      by (simp add: bitlen_le_iff_power)
    have mk: "make_float ?A e = Finite ?A e"
    proof (intro make_float_exact bA)
      show "- 1074 \<le> e" using True by simp
      show "bitlen \<bar>?A\<bar> + e \<le> 1024" if "?A \<noteq> 0"
      proof -
        from that have "m \<noteq> 0" by auto
        then have "e = 0" by (rule e0)
        with bA show ?thesis by simp
      qed
    qed
    have x: "of_int M * float_val m e = (of_int (?A * 2 ^ ?n) :: real)"
      unfolding val by (simp add: algebra_simps)
    have "split_index M (Finite m e) = Inr (?A * 2 ^ ?n)"
      using True by (simp add: si mk py_int_def)
    then show ?thesis unfolding x by (auto simp only: floor_of_int ceiling_of_int order_refl)
  next
    case False
    define n where "n = nat (- e)"
    have e: "e = - int n" and n0: "0 < n" using False by (simp_all add: n_def)
    have val: "float_val m e = of_int m / 2 ^ n"
      using False by (simp add: float_val_def n_def)
    have mle: "m \<le> 2 ^ n"
    proof -
      have "(of_int m :: real) \<le> 2 ^ n" using v(2) unfolding val by (simp add: divide_le_eq)
      then have "(of_int m :: real) \<le> of_int (2 ^ n)" by simp
      then show ?thesis by (simp only: of_int_le_iff)
    qed
    have x: "of_int M * float_val m e = (of_int ?A / of_int (2 ^ n) :: real)"
      unfolding val by simp
    have fl: "\<lfloor>of_int M * float_val m e\<rfloor> = ?A div 2 ^ n"
      unfolding x by (rule floor_divide_of_int_eq)
    have "?A \<le> M * 2 ^ n" using M(1) mle by (simp add: mult_left_mono)
    also have "\<dots> < 2 ^ 53 * 2 ^ n" using M(2) by (simp add: mult_strict_right_mono)
    finally have Alt: "?A < 2 ^ (53 + n)" by (simp add: power_add)
    have bA: "bitlen \<bar>?A\<bar> \<le> 53 + int n"
      using A0 Alt by (simp add: bitlen_le_iff_power nat_add_distrib flip: of_nat_add)
    define s where "s = max (bitlen \<bar>?A\<bar> - 53) (- 1074 - e)"
    have sn: "s \<le> int n" using bA by (simp add: s_def e)
    show ?thesis
    proof (cases "s \<le> 0")
      case True
      have mk: "make_float ?A e = Finite ?A e"
        using True unfolding s_def
        by (intro make_float_exact) (use bA e in simp_all)
      have "split_index M (Finite m e) = py_int (Finite ?A (- int n))"
        using si mk e by simp
      also have "\<dots> = Inr (?A div 2 ^ n)"
        using A0 by (rule py_int_nonneg)
      finally show ?thesis
        using fl floor_le_ceiling[of "of_int M * float_val m e"] by simp
    next
      case False
      define sn where "sn = nat s"
      define t where "t = n - sn"
      have s: "s = int sn" and sn0: "0 < sn" using False by (simp_all add: sn_def)
      have nt: "n = sn + t" using sn s by (simp add: t_def)
      define q' where "q' = round_half_even ?A sn"
      note rb = round_half_even_bounds[OF sn0, of ?A, folded q'_def]
      have "0 \<le> ?A div 2 ^ sn"
        using A0 by (simp add: pos_imp_zdiv_nonneg_iff)
      with rb(1) have q0: "0 \<le> q'" by linarith
      have sg: "sgn ?A * q' = q'"
      proof (cases "?A = 0")
        case True
        then have "0 \<le> q'" "q' \<le> 1" "q' \<noteq> 1" using rb by auto
        then have "q' = 0" by linarith
        then show ?thesis by simp
      next
        case False
        with A0 have "0 < ?A" by linarith
        then show ?thesis by simp
      qed
      have "bitlen \<bar>?A\<bar> \<le> 53 + s" by (simp add: s_def)
      then have "?A < 2 ^ (53 + sn)"
        using A0 by (simp add: bitlen_le_iff_power s nat_add_distrib flip: of_nat_add)
      then have "?A < 2 ^ 53 * 2 ^ sn" by (simp add: power_add)
      then have "?A div 2 ^ sn < 2 ^ 53" by (intro int_div_less) simp_all
      with rb(2) have "q' < 2 ^ 54" by simp
      then have bq: "bitlen \<bar>q'\<bar> \<le> 54"
        using q0 by (simp add: bitlen_le_iff_power)
      have es: "e + s = - int t" using nt by (simp add: e s)
      have aA: "\<bar>?A\<bar> = ?A" using A0 by simp
      have "make_float ?A e =
          (if s \<le> 0 then finite_or_inf ?A e
           else finite_or_inf (sgn ?A * round_half_even \<bar>?A\<bar> (nat s)) (e + s))"
        by (simp only: make_float_def Let_def s_def)
      then have "make_float ?A e = finite_or_inf (sgn ?A * q') (e + s)"
        using False by (simp add: aA q'_def sn_def)
      then have mf: "make_float ?A e = finite_or_inf q' (- int t)"
        by (simp only: sg es)
      have "\<not> (q' \<noteq> 0 \<and> bitlen \<bar>q'\<bar> + (- int t) > 1024)"
        using bq by simp
      then have mk: "make_float ?A e = Finite q' (- int t)"
        unfolding mf finite_or_inf_def by (simp only: if_False)
      have k: "split_index M (Finite m e) = Inr (q' div 2 ^ t)"
        unfolding si mk using q0 by (rule py_int_nonneg)
      note tr = trunc_rounded[OF rb, of t]
      have lo: "\<lfloor>of_int M * float_val m e\<rfloor> \<le> q' div 2 ^ t"
        unfolding fl nt using tr(1) .
      have "of_int ((q' div 2 ^ t - 1) * 2 ^ n) < (of_int ?A :: real)"
        using tr(2) unfolding nt by (simp only: of_int_less_iff)
      then have "(of_int (q' div 2 ^ t) - 1) * 2 ^ n < (of_int ?A :: real)"
        by simp
      then have "of_int (q' div 2 ^ t) - 1 < (of_int ?A / 2 ^ n :: real)"
        by (simp add: pos_less_divide_eq)
      then have hi: "q' div 2 ^ t \<le> \<lceil>of_int M * float_val m e\<rceil>"
        unfolding x by (simp add: le_ceiling_iff)
      show ?thesis using k lo hi by blast
    qed
  qed
qed

subsection \<open>Paths, patterns and the shuffle\<close>

lemma basename_no_sep: "CHR ''/'' \<notin> set (os_path_basename p)"
  unfolding os_path_basename_def using set_takeWhileD[of "CHR ''/''" "\<lambda>c. c \<noteq> CHR ''/''" "rev p"]
  by auto

lemma splitext_subset: "set (fst (os_path_splitext p)) \<subseteq> set p"
  by (auto simp: os_path_splitext_def Let_def dest: in_set_takeD)

lemma basename_append:
  "CHR ''/'' \<notin> set n \<Longrightarrow> os_path_basename (d @ CHR ''/'' # n) = n"
  by (simp add: os_path_basename_def takeWhile_append)

lemma basename_plain:
  assumes "CHR ''/'' \<notin> set n"
  shows "os_path_basename n = n"
proof -
  have tw: "takeWhile (\<lambda>c. c \<noteq> CHR ''/'') (rev n) = rev n"
    using assms by (auto simp: takeWhile_eq_all_conv)
  show ?thesis unfolding os_path_basename_def tw by simp
qed

lemma rstrip_sep_snoc: "rstrip_sep (d @ ''/'') = rstrip_sep d"
  by (simp add: rstrip_sep_def)

lemma rstrip_sep_id: "d \<noteq> [] \<Longrightarrow> last d \<noteq> CHR ''/'' \<Longrightarrow> rstrip_sep d = d"
  by (cases d rule: rev_cases) (simp_all add: rstrip_sep_def)

lemma join2_plain:
  "CHR ''/'' \<notin> set n \<Longrightarrow> d \<noteq> [] \<Longrightarrow> last d \<noteq> CHR ''/'' \<Longrightarrow> join2 d n = d @ CHR ''/'' # n"
  by (cases n) (auto simp: join2_def)

lemma dirname_join:
  assumes "CHR ''/'' \<notin> set n" "d \<noteq> []" "last d \<noteq> CHR ''/''"
  shows "os_path_dirname (os_path_join d [n]) = d"
proof -
  have j: "os_path_join d [n] = d @ CHR ''/'' # n"
    using assms by (simp add: os_path_join_def join2_plain)
  have t: "os_path_basename (d @ CHR ''/'' # n) = n"
    using assms(1) by (rule basename_append)
  have h: "take (length (d @ CHR ''/'' # n) - length n) (d @ CHR ''/'' # n) = d @ ''/''"
    by simp
  have na: "\<not> list_all (\<lambda>c. c = CHR ''/'') (d @ ''/'')"
    using assms(2,3) by (cases d rule: rev_cases) auto
  show ?thesis
    unfolding os_path_dirname_def j os_path_split_def Let_def t h
    using na assms by (simp add: rstrip_sep_snoc rstrip_sep_id)
qed


lemma join2_star:
  "join2 d (CHR ''*'' # lit) = (if d = [] \<or> last d = CHR ''/'' then d else d @ ''/'') @ CHR ''*'' # lit"
  by (simp add: join2_def)

lemma split_star:
  assumes "CHR ''/'' \<notin> set lit"
  shows "os_path_split (os_path_join images_dir [CHR ''*'' # lit]) =
           (os_path_dirname (os_path_join images_dir [''*.jpg'']), CHR ''*'' # lit)"
proof -
  let ?pre = "(if images_dir = [] \<or> last images_dir = CHR ''/'' then images_dir else images_dir @ ''/'')"
  have pre: "?pre = [] \<or> last ?pre = CHR ''/''" by auto
  have sp: "os_path_split (?pre @ CHR ''*'' # l) =
      (if ?pre \<noteq> [] \<and> \<not> list_all (\<lambda>c. c = CHR ''/'') ?pre then rstrip_sep ?pre else ?pre,
       CHR ''*'' # l)" if "CHR ''/'' \<notin> set l" for l
  proof -
    have b: "os_path_basename (?pre @ CHR ''*'' # l) = CHR ''*'' # l"
    proof (cases "?pre = []")
      case True
      then show ?thesis using that by (simp add: basename_plain)
    next
      case False
      with pre obtain q where q: "?pre = q @ ''/''"
        by (metis append_butlast_last_id)
      show ?thesis unfolding q using that basename_append[of "CHR ''*'' # l" q] by simp
    qed
    show ?thesis
      unfolding os_path_split_def Let_def b by simp
  qed
  show ?thesis
    using sp[OF assms] sp[of "''.jpg''"]
    by (simp add: os_path_join_def join2_star os_path_dirname_def)
qed


lemma rstrip_sep_subset: "set (rstrip_sep p) \<subseteq> set p"
  unfolding rstrip_sep_def by (auto dest: set_dropWhileD)

lemma dirname_star_chars:
  "set (os_path_dirname (os_path_join images_dir [''*.jpg''])) \<subseteq> insert (CHR ''/'') (set images_dir)"
proof -
  define pre where
    "pre = (if images_dir = [] \<or> last images_dir = CHR ''/'' then images_dir else images_dir @ ''/'')"
  have pre: "pre = [] \<or> last pre = CHR ''/''" by (auto simp: pre_def)
  have sub: "set pre \<subseteq> insert (CHR ''/'') (set images_dir)" by (auto simp: pre_def)
  have j: "os_path_join images_dir [''*.jpg''] = pre @ ''*.jpg''"
    by (simp add: os_path_join_def join2_star pre_def)
  have b: "os_path_basename (pre @ ''*.jpg'') = ''*.jpg''"
  proof (cases "pre = []")
    case True
    then show ?thesis by (simp add: basename_plain)
  next
    case False
    with pre obtain q where q: "pre = q @ ''/''"
      by (metis append_butlast_last_id)
    show ?thesis unfolding q using basename_append[of "''*.jpg''" q] by simp
  qed
  have D: "os_path_dirname (os_path_join images_dir [''*.jpg'']) = rstrip_sep pre \<or>
           os_path_dirname (os_path_join images_dir [''*.jpg'']) = pre"
    unfolding j os_path_dirname_def os_path_split_def Let_def b by simp
  then have "set (os_path_dirname (os_path_join images_dir [''*.jpg''])) \<subseteq> set pre"
    using rstrip_sep_subset[of pre] by auto
  then show ?thesis using sub by (rule subset_trans)
qed

lemma dirname_star_magic:
  "\<not> has_magic images_dir \<Longrightarrow> \<not> has_magic (os_path_dirname (os_path_join images_dir [''*.jpg'']))"
  using dirname_star_chars[of images_dir] by (auto simp: has_magic_def list_ex_iff)

lemma glob_star:
  assumes "CHR ''/'' \<notin> set lit" "\<not> has_magic images_dir"
  shows "length (glob h (os_path_join images_dir [CHR ''*'' # lit])) =
         length (filter (\<lambda>n. \<not> is_hidden n \<and> ends_with n lit) (listdir h (listed_dir images_dir)))"
  unfolding glob_def split_star[OF assms(1)] listed_dir_def
  using dirname_star_magic[OF assms(2)]
  by (simp add: Let_def glob1_def is_hidden_def fnmatch_def)

lemma ends_with_iff: "ends_with n s \<longleftrightarrow> (\<exists>pre. n = pre @ s)"
proof
  assume "ends_with n s"
  then have "n = take (length n - length s) n @ s"
    by (simp add: ends_with_def) (metis append_take_drop_id)
  then show "\<exists>pre. n = pre @ s" ..
next
  assume "\<exists>pre. n = pre @ s"
  then show "ends_with n s" by (auto simp: ends_with_def)
qed

lemma image_ext_disjoint:
  "\<not> (ends_with n ''.jpg'' \<and> ends_with n ''.jpeg'')"
  "\<not> (ends_with n ''.jpg'' \<and> ends_with n ''.png'')"
  "\<not> (ends_with n ''.jpeg'' \<and> ends_with n ''.png'')"
proof -
  have r: "ends_with n s \<Longrightarrow> \<exists>q. rev n = rev s @ q" for s
    by (auto simp: ends_with_iff)
  show "\<not> (ends_with n ''.jpg'' \<and> ends_with n ''.jpeg'')"
    using r[of "''.jpg''"] r[of "''.jpeg''"] by auto
  show "\<not> (ends_with n ''.jpg'' \<and> ends_with n ''.png'')"
    using r[of "''.jpg''"] r[of "''.png''"] by auto
  show "\<not> (ends_with n ''.jpeg'' \<and> ends_with n ''.png'')"
    using r[of "''.jpeg''"] r[of "''.png''"] by auto
qed

lemma length_filter_disjoint:
  "(\<And>x. \<not> (P x \<and> Q x)) \<Longrightarrow>
   length (filter P xs) + length (filter Q xs) = length (filter (\<lambda>x. P x \<or> Q x) xs)"
  by (induction xs) auto


lemma length_image_files:
  assumes "\<not> has_magic images_dir"
  shows "length (image_files_of h images_dir) =
     length (filter is_image_name (listdir h (listed_dir images_dir)))"
proof -
  let ?L = "listdir h (listed_dir images_dir)"
  let ?f = "\<lambda>s n. \<not> is_hidden n \<and> ends_with n s"
  have g: "length (glob h (os_path_join images_dir [''*.'' @ ext])) = length (filter (?f (''.'' @ ext)) ?L)"
    if "CHR ''/'' \<notin> set ext" for ext
    using glob_star[of "''.'' @ ext" images_dir h] that assms by simp
  have 1: "length (filter (?f ''.jpg'') ?L) + length (filter (?f ''.jpeg'') ?L) =
           length (filter (\<lambda>n. ?f ''.jpg'' n \<or> ?f ''.jpeg'' n) ?L)"
    by (rule length_filter_disjoint) (use image_ext_disjoint in blast)
  have 2: "length (filter (\<lambda>n. ?f ''.jpg'' n \<or> ?f ''.jpeg'' n) ?L) + length (filter (?f ''.png'') ?L) =
           length (filter (\<lambda>n. (?f ''.jpg'' n \<or> ?f ''.jpeg'' n) \<or> ?f ''.png'' n) ?L)"
    by (rule length_filter_disjoint) (use image_ext_disjoint in blast)
  have 3: "(\<lambda>n. (?f ''.jpg'' n \<or> ?f ''.jpeg'' n) \<or> ?f ''.png'' n) = is_image_name"
    by (auto simp: is_image_name_def fun_eq_iff)
  have "length (image_files_of h images_dir) =
        length (filter (?f ''.jpg'') ?L) + length (filter (?f ''.jpeg'') ?L)
          + length (filter (?f ''.png'') ?L)"
    using g[of "''jpg''"] g[of "''jpeg''"] g[of "''png''"]
    by (simp add: image_files_of_def)
  then show ?thesis using 1 2 3 by simp
qed

lemma shuffle_loop_mset: "i < length xs \<Longrightarrow> mset (shuffle_loop rnd i xs) = mset xs"
proof (induction i arbitrary: xs)
  case 0
  then show ?case by simp
next
  case (Suc i)
  let ?j = "rnd (Suc i) mod (Suc i + 1)"
  have "?j < Suc i + 1" by simp
  then have j: "?j < length xs" using Suc.prems by linarith
  have "mset (xs[Suc i := xs ! ?j, ?j := xs ! Suc i]) = mset xs"
    using mset_swap[of ?j xs "Suc i"] Suc.prems j by simp
  moreover have "i < length (xs[Suc i := xs ! ?j, ?j := xs ! Suc i])"
    using Suc.prems by simp
  ultimately show ?case using Suc.IH by (simp add: Let_def)
qed

lemma random_shuffle_mset: "mset (random_shuffle rnd xs) = mset xs"
  by (cases xs) (simp_all add: random_shuffle_def shuffle_loop_mset)

lemma random_shuffle_length: "length (random_shuffle rnd xs) = length xs"
  using random_shuffle_mset[of rnd xs] by (metis size_mset)


lemma copies_into_append: "copies_into d (a @ b) = copies_into d a @ copies_into d b"
  by (induction d a rule: copies_into.induct) auto

lemma made_dirs_append: "made_dirs (a @ b) = made_dirs a @ made_dirs b"
  by (induction a rule: made_dirs.induct) auto

lemma made_dirs_copy_images: "made_dirs (copy_images h idir img_dir label_dir imgs) = []"
  by (induction imgs) (auto simp: Let_def)

lemma copies_into_copy_images:
  assumes "img_dir \<noteq> []" "last img_dir \<noteq> CHR ''/''"
    and "label_dir \<noteq> []" "last label_dir \<noteq> CHR ''/''"
    and "img_dir \<noteq> label_dir"
  shows "copies_into d (copy_images h idir img_dir label_dir imgs) =
     (if d = img_dir then imgs
      else if d = label_dir
        then map (label_path_of idir) (filter (\<lambda>p. path_exists h (label_path_of idir p)) imgs)
      else [])"
proof (induction imgs)
  case Nil
  then show ?case by simp
next
  case (Cons p imgs)
  let ?f = "os_path_basename p"
  let ?b = "fst (os_path_splitext ?f) @ ''.txt''"
  have nf: "CHR ''/'' \<notin> set ?f" by (rule basename_no_sep)
  have nb: "CHR ''/'' \<notin> set ?b"
    using splitext_subset[of ?f] nf by auto
  have d1: "os_path_dirname (os_path_join img_dir [?f]) = img_dir"
    using nf assms(1,2) by (rule dirname_join)
  have d2: "os_path_dirname (os_path_join label_dir [?b]) = label_dir"
    using nb assms(3,4) by (rule dirname_join)
  have lp: "os_path_join idir [?b] = label_path_of idir p"
    by (simp add: label_path_of_def)
  show ?case
    using Cons.IH assms(5) d1 d2
    by (auto simp: Let_def lp)
qed

lemma dataset_dirs:
  "\<exists>dd. train_img_dir h = dd @ ''/images/train'' \<and> val_img_dir h = dd @ ''/images/val'' \<and>
        train_label_dir h = dd @ ''/labels/train'' \<and> val_label_dir h = dd @ ''/labels/val''"
proof -
  let ?dd = "os_path_join (getcwd h) [''dataset'']"
  have g: "?dd \<noteq> [] \<and> last ?dd \<noteq> CHR ''/''"
    by (simp add: os_path_join_def join2_def)
  have j: "os_path_join ?dd [a, b] = ?dd @ CHR ''/'' # a @ CHR ''/'' # b"
    if "CHR ''/'' \<notin> set a" "CHR ''/'' \<notin> set b" "a \<noteq> []" for a b
  proof -
    have 1: "join2 ?dd a = ?dd @ CHR ''/'' # a"
      using that(1) g by (simp add: join2_plain)
    have la: "last a \<noteq> CHR ''/''"
      using that(1,3) by (metis last_in_set)
    have 2: "join2 (?dd @ CHR ''/'' # a) b = (?dd @ CHR ''/'' # a) @ CHR ''/'' # b"
      using that(2) la that(3) by (intro join2_plain) simp_all
    have "os_path_join ?dd [a, b] = join2 (join2 ?dd a) b"
      by (simp add: os_path_join_def)
    then show ?thesis using 1 2 by simp
  qed
  have "train_img_dir h = ?dd @ ''/images/train''" "val_img_dir h = ?dd @ ''/images/val''"
    "train_label_dir h = ?dd @ ''/labels/train''" "val_label_dir h = ?dd @ ''/labels/val''"
    unfolding train_img_dir_def val_img_dir_def train_label_dir_def val_label_dir_def
    using j[of "''images''" "''train''"] j[of "''images''" "''val''"]
      j[of "''labels''" "''train''"] j[of "''labels''" "''val''"]
    by simp_all
  then show ?thesis by blast
qed

lemma dataset_dirs_good:
  "train_img_dir h \<noteq> [] \<and> last (train_img_dir h) \<noteq> CHR ''/'' \<and>
   val_img_dir h \<noteq> [] \<and> last (val_img_dir h) \<noteq> CHR ''/'' \<and>
   train_label_dir h \<noteq> [] \<and> last (train_label_dir h) \<noteq> CHR ''/'' \<and>
   val_label_dir h \<noteq> [] \<and> last (val_label_dir h) \<noteq> CHR ''/''"
  using dataset_dirs[of h] by auto

lemma dataset_dirs_distinct:
  "distinct [train_img_dir h, val_img_dir h, train_label_dir h, val_label_dir h]"
  using dataset_dirs[of h] by auto


lemma perform_complete: "snd (perform h xs) = None \<Longrightarrow> fst (perform h xs) = xs"
  by (induction xs) (auto split: option.splits prod.splits fs_effect.splits)

subsection \<open>The run\<close>

lemma prepare_dataset_success:
  assumes "snd (prepare_dataset h rnd idir r) = None"
  shows "\<exists>idx. split_index (int (length (image_files_of h idir))) r = Inr idx \<and>
     fst (prepare_dataset h rnd idir r) =
       [Makedirs (train_img_dir h), Makedirs (val_img_dir h),
        Makedirs (train_label_dir h), Makedirs (val_label_dir h)]
       @ copy_images h idir (train_img_dir h) (train_label_dir h)
           (slice_to (random_shuffle rnd (image_files_of h idir)) idx)
       @ copy_images h idir (val_img_dir h) (val_label_dir h)
           (slice_from (random_shuffle rnd (image_files_of h idir)) idx)
       @ [Print (''Dataset prepared: ''
            @ py_str (int (length (slice_to (random_shuffle rnd (image_files_of h idir)) idx)))
            @ '' training images, ''
            @ py_str (int (length (slice_from (random_shuffle rnd (image_files_of h idir)) idx)))
            @ '' validation images'')]"
proof -
  let ?mk = "[Makedirs (train_img_dir h), Makedirs (val_img_dir h),
              Makedirs (train_label_dir h), Makedirs (val_label_dir h)]"
  let ?files = "random_shuffle rnd (image_files_of h idir)"
  let ?rest = "\<lambda>idx. copy_images h idir (train_img_dir h) (train_label_dir h) (slice_to ?files idx)
       @ copy_images h idir (val_img_dir h) (val_label_dir h) (slice_from ?files idx)
       @ [Print (''Dataset prepared: '' @ py_str (int (length (slice_to ?files idx)))
            @ '' training images, '' @ py_str (int (length (slice_from ?files idx)))
            @ '' validation images'')]"
  obtain made r1 where p1: "perform h ?mk = (made, r1)" by (cases "perform h ?mk")
  have r1: "r1 = None"
    using assms p1 by (cases r1) (simp_all add: prepare_dataset_def)
  have made: "made = ?mk"
    using perform_complete[of h ?mk] p1 r1 by simp
  have len: "length ?files = length (image_files_of h idir)"
    by (rule random_shuffle_length)
  obtain idx where idx: "split_index (int (length (image_files_of h idir))) r = Inr idx"
    using assms p1 r1 len
    by (cases "split_index (int (length (image_files_of h idir))) r")
       (simp_all add: prepare_dataset_def Let_def)
  obtain copied r2 where p2: "perform h (?rest idx) = (copied, r2)"
    by (cases "perform h (?rest idx)")
  have pd: "prepare_dataset h rnd idir r = (made @ copied, r2)"
    using p1 r1 idx p2 len by (simp add: prepare_dataset_def Let_def)
  then have "r2 = None" using assms by simp
  then have "copied = ?rest idx"
    using perform_complete[of h "?rest idx"] p2 by simp
  with pd made idx show ?thesis by auto
qed

lemma prepare_dataset_copies:
  assumes "snd (prepare_dataset h rnd idir r) = None"
  shows "\<exists>idx. split_index (int (length (image_files_of h idir))) r = Inr idx \<and>
     made_dirs (fst (prepare_dataset h rnd idir r)) =
       [train_img_dir h, val_img_dir h, train_label_dir h, val_label_dir h] \<and>
     (\<forall>d. copies_into d (fst (prepare_dataset h rnd idir r)) =
       (let files = random_shuffle rnd (image_files_of h idir);
            train = slice_to files idx; val = slice_from files idx
        in (if d = train_img_dir h then train
            else if d = train_label_dir h
              then map (label_path_of idir) (filter (\<lambda>p. path_exists h (label_path_of idir p)) train)
            else [])
           @ (if d = val_img_dir h then val
            else if d = val_label_dir h
              then map (label_path_of idir) (filter (\<lambda>p. path_exists h (label_path_of idir p)) val)
            else [])))"
proof -
  have t: "copies_into d (copy_images h idir (train_img_dir h) (train_label_dir h) imgs) =
     (if d = train_img_dir h then imgs
      else if d = train_label_dir h
        then map (label_path_of idir) (filter (\<lambda>p. path_exists h (label_path_of idir p)) imgs)
      else [])" for imgs d
    using dataset_dirs_good[of h] dataset_dirs_distinct[of h]
    by (intro copies_into_copy_images) simp_all
  have v: "copies_into d (copy_images h idir (val_img_dir h) (val_label_dir h) imgs) =
     (if d = val_img_dir h then imgs
      else if d = val_label_dir h
        then map (label_path_of idir) (filter (\<lambda>p. path_exists h (label_path_of idir p)) imgs)
      else [])" for imgs d
    using dataset_dirs_good[of h] dataset_dirs_distinct[of h]
    by (intro copies_into_copy_images) simp_all
  from prepare_dataset_success[OF assms] obtain idx where
    idx: "split_index (int (length (image_files_of h idir))) r = Inr idx" and
    tr: "fst (prepare_dataset h rnd idir r) =
       [Makedirs (train_img_dir h), Makedirs (val_img_dir h),
        Makedirs (train_label_dir h), Makedirs (val_label_dir h)]
       @ copy_images h idir (train_img_dir h) (train_label_dir h)
           (slice_to (random_shuffle rnd (image_files_of h idir)) idx)
       @ copy_images h idir (val_img_dir h) (val_label_dir h)
           (slice_from (random_shuffle rnd (image_files_of h idir)) idx)
       @ [Print (''Dataset prepared: ''
            @ py_str (int (length (slice_to (random_shuffle rnd (image_files_of h idir)) idx)))
            @ '' training images, ''
            @ py_str (int (length (slice_from (random_shuffle rnd (image_files_of h idir)) idx)))
            @ '' validation images'')]"
    by blast
  have md: "made_dirs (fst (prepare_dataset h rnd idir r)) =
       [train_img_dir h, val_img_dir h, train_label_dir h, val_label_dir h]"
    unfolding tr by (simp add: made_dirs_append made_dirs_copy_images)
  have ci: "copies_into d (fst (prepare_dataset h rnd idir r)) =
       (let files = random_shuffle rnd (image_files_of h idir);
            train = slice_to files idx; val = slice_from files idx
        in (if d = train_img_dir h then train
            else if d = train_label_dir h
              then map (label_path_of idir) (filter (\<lambda>p. path_exists h (label_path_of idir p)) train)
            else [])
           @ (if d = val_img_dir h then val
            else if d = val_label_dir h
              then map (label_path_of idir) (filter (\<lambda>p. path_exists h (label_path_of idir p)) val)
            else []))" for d
    unfolding tr Let_def copies_into_append t v by simp
  show ?thesis using idx md ci by blast
qed

text \<open>
  Claim C9, amended. Let the run of \<open>prepare_dataset\<close> end without an error (every
  \<open>makedirs\<close> and every copy succeeds, and the product of line 34 converts to an
  integer), let the source directory name have none of the wildcard characters
  \<open>*\<close>, \<open>?\<close> and \<open>[\<close>, let the split ratio be a float \<open>r\<close> between 0 and 1, and let
  \<open>M\<close>, the number of names in the source directory that do not start with a dot and
  end with \<open>.jpg\<close>, \<open>.jpeg\<close> or \<open>.png\<close>, be less than \<open>2 ^ 53\<close>. Then the number \<open>k\<close> of
  images copied into \<open>images/train\<close> is \<open>int\<close> of the product of \<open>M\<close> and \<open>r\<close> as rounded
  to a double, which is \<open>floor (M * r)\<close> or \<open>ceiling (M * r)\<close> or between them; the other
  \<open>M - k\<close> images are copied into \<open>images/val\<close>, the two lists together being the images
  found, each once; into \<open>labels/train\<close> and \<open>labels/val\<close> go the label files of exactly
  those images of the respective list whose label file exists; and the directories made
  are the four of the layout.
\<close>

theorem prepare_dataset_split:
  "snd (prepare_dataset h rnd images_dir (Finite m e)) = None \<Longrightarrow>
   0 \<le> float_val m e \<Longrightarrow> float_val m e \<le> 1 \<Longrightarrow>
   length (image_files_of h images_dir) < 2 ^ 53 \<Longrightarrow>
   \<not> has_magic images_dir \<Longrightarrow>
   (let tr = fst (prepare_dataset h rnd images_dir (Finite m e));
        M = length (image_files_of h images_dir);
        train = copies_into (train_img_dir h) tr;
        val = copies_into (val_img_dir h) tr
    in M = length (filter is_image_name (listdir h (listed_dir images_dir))) \<and>
       split_index (int M) (Finite m e) = Inr (int (length train)) \<and>
       \<lfloor>real M * float_val m e\<rfloor> \<le> int (length train) \<and>
       int (length train) \<le> \<lceil>real M * float_val m e\<rceil> \<and>
       length val = M - length train \<and>
       mset (train @ val) = mset (image_files_of h images_dir) \<and>
       copies_into (train_label_dir h) tr =
         map (label_path_of images_dir)
           (filter (\<lambda>p. path_exists h (label_path_of images_dir p)) train) \<and>
       copies_into (val_label_dir h) tr =
         map (label_path_of images_dir)
           (filter (\<lambda>p. path_exists h (label_path_of images_dir p)) val) \<and>
       made_dirs tr = [train_img_dir h, val_img_dir h, train_label_dir h, val_label_dir h])"
proof -
  assume ok: "snd (prepare_dataset h rnd images_dir (Finite m e)) = None"
    and v: "0 \<le> float_val m e" "float_val m e \<le> 1"
    and small: "length (image_files_of h images_dir) < 2 ^ 53"
    and plain: "\<not> has_magic images_dir"
  let ?files = "random_shuffle rnd (image_files_of h images_dir)"
  let ?M = "length (image_files_of h images_dir)"
  let ?tr = "fst (prepare_dataset h rnd images_dir (Finite m e))"
  from prepare_dataset_copies[OF ok] obtain idx where
    idx: "split_index (int ?M) (Finite m e) = Inr idx" and
    md: "made_dirs ?tr = [train_img_dir h, val_img_dir h, train_label_dir h, val_label_dir h]" and
    ci: "\<And>d. copies_into d ?tr =
       (let files = ?files; train = slice_to files idx; val = slice_from files idx
        in (if d = train_img_dir h then train
            else if d = train_label_dir h
              then map (label_path_of images_dir)
                     (filter (\<lambda>p. path_exists h (label_path_of images_dir p)) train)
            else [])
           @ (if d = val_img_dir h then val
            else if d = val_label_dir h
              then map (label_path_of images_dir)
                     (filter (\<lambda>p. path_exists h (label_path_of images_dir p)) val)
            else []))"
    by blast
  have Mi: "0 \<le> int ?M" "int ?M < 2 ^ 53"
    using small by simp_all
  from split_index_bounds[OF Mi v] idx
  have lo: "\<lfloor>real ?M * float_val m e\<rfloor> \<le> idx" and hi: "idx \<le> \<lceil>real ?M * float_val m e\<rceil>"
    by auto
  have x0: "0 \<le> real ?M * float_val m e" using v(1) by simp
  have x1: "real ?M * float_val m e \<le> real ?M" using v(2) by (simp add: mult_left_le)
  have "0 \<le> \<lfloor>real ?M * float_val m e\<rfloor>" using x0 by simp
  with lo have i0: "0 \<le> idx" by linarith
  have "\<lceil>real ?M * float_val m e\<rceil> \<le> int ?M"
    using x1 by (simp add: ceiling_le_iff)
  with hi have iM: "idx \<le> int ?M" by linarith
  define k where "k = nat idx"
  have k: "idx = int k" and kM: "k \<le> ?M" using i0 iM by (simp_all add: k_def)
  have len: "length ?files = ?M" by (rule random_shuffle_length)
  have sb: "slice_bound ?M idx = k" using kM by (simp add: slice_bound_def k)
  have sl: "slice_to ?files idx = take k ?files" "slice_from ?files idx = drop k ?files"
    unfolding slice_to_def slice_from_def len sb by simp_all
  have dd: "distinct [train_img_dir h, val_img_dir h, train_label_dir h, val_label_dir h]"
    by (rule dataset_dirs_distinct)
  have tr: "copies_into (train_img_dir h) ?tr = take k ?files"
    using dd by (simp add: ci Let_def sl)
  have va: "copies_into (val_img_dir h) ?tr = drop k ?files"
    using dd by (auto simp add: ci Let_def sl)
  have tl: "copies_into (train_label_dir h) ?tr =
      map (label_path_of images_dir)
        (filter (\<lambda>p. path_exists h (label_path_of images_dir p)) (take k ?files))"
    using dd by (auto simp add: ci Let_def sl)
  have vl: "copies_into (val_label_dir h) ?tr =
      map (label_path_of images_dir)
        (filter (\<lambda>p. path_exists h (label_path_of images_dir p)) (drop k ?files))"
    using dd by (auto simp add: ci Let_def sl)
  have l1: "length (take k ?files) = k" using kM len by simp
  have l2: "length (drop k ?files) = ?M - k" using len by simp
  have ms: "mset (take k ?files @ drop k ?files) = mset (image_files_of h images_dir)"
    by (simp add: random_shuffle_mset)
  have c1: "?M = length (filter is_image_name (listdir h (listed_dir images_dir)))"
    using plain by (rule length_image_files)
  have c2: "split_index (int ?M) (Finite m e) = Inr (int (length (take k ?files)))"
    using idx k l1 by simp
  have c3: "\<lfloor>real ?M * float_val m e\<rfloor> \<le> int (length (take k ?files))"
    using lo k l1 by simp
  have c4: "int (length (take k ?files)) \<le> \<lceil>real ?M * float_val m e\<rceil>"
    using hi k l1 by simp
  have c5: "length (drop k ?files) = ?M - length (take k ?files)"
    using l1 l2 by simp
  show ?thesis
    unfolding Let_def tr va tl vl
    by (intro conjI c1 c2 c3 c4 c5 ms md refl)
qed

text \<open>
  Claim C9, as stated, fails.
  With three images and the ratio 2.0 all three go to \<open>images/train\<close>, not
  \<open>floor (3 * 2) = 6\<close>: the slice bounds clip a ratio outside 0 to 1.
  A directory whose only image is \<open>.h.jpg\<close>, extension \<open>.jpg\<close>, gives no copy at all,
  since the pattern \<open>*.jpg\<close> does not match a name that starts with a dot.
  With five images and the ratio 0.6 three images go to \<open>images/train\<close>, while the double
  nearest to 0.6 is below it and the floor of five times its value is 2: the product
  is rounded to the double 3.0 before \<open>int\<close> truncates it. With 50 images and the
  ratio 0.58 the index is 28, while \<open>floor (50 * 58 / 100) = 29\<close>.
  In a source directory named \<open>/d[1]\<close> the image \<open>a.jpg\<close> is not found, as \<open>glob\<close> reads
  the brackets as a wildcard. When the entry \<open>a.jpg\<close> is a directory, its copy raises
  \<open>IsADirectoryError\<close> and the run ends there, with no file copied and nothing printed.
  And with \<open>2 ^ 53 + 1\<close> images and the ratio 1.0 the index is \<open>2 ^ 53\<close>, the count
  itself being rounded when it is converted to a float.
\<close>

theorem prepare_dataset_split_counterexample:
  "filter is_image_name (listdir demo_disk (listed_dir ''/data'')) = [''a.jpg'', ''b.png'', ''c.jpeg''] \<and>
   prepare_dataset demo_disk (\<lambda>i. 0) ''/data'' float_2 =
     ([Makedirs ''/srv/app/dataset/images/train'', Makedirs ''/srv/app/dataset/images/val'',
       Makedirs ''/srv/app/dataset/labels/train'', Makedirs ''/srv/app/dataset/labels/val'',
       Copy ''/data/c.jpeg'' ''/srv/app/dataset/images/train/c.jpeg'',
       Copy ''/data/b.png'' ''/srv/app/dataset/images/train/b.png'',
       Copy ''/data/a.jpg'' ''/srv/app/dataset/images/train/a.jpg'',
       Copy ''/data/a.txt'' ''/srv/app/dataset/labels/train/a.txt'',
       Print ''Dataset prepared: 3 training images, 0 validation images''], None) \<and>
   float_2 = Finite 2 0 \<and> \<lfloor>real 3 * float_val 2 0\<rfloor> = 6 \<and>
   listdir hidden_disk (listed_dir ''/data'') = [''.h.jpg''] \<and>
   os_path_splitext ''.h.jpg'' = (''.h'', ''.jpg'') \<and>
   prepare_dataset hidden_disk (\<lambda>i. 0) ''/data'' float_1 =
     ([Makedirs ''/srv/app/dataset/images/train'', Makedirs ''/srv/app/dataset/images/val'',
       Makedirs ''/srv/app/dataset/labels/train'', Makedirs ''/srv/app/dataset/labels/val'',
       Print ''Dataset prepared: 0 training images, 0 validation images''], None) \<and>
   length (filter is_image_name (listdir five_disk (listed_dir ''/data''))) = 5 \<and>
   snd (prepare_dataset five_disk (\<lambda>i. 0) ''/data'' float_0_6) = None \<and>
   length (copies_into (train_img_dir five_disk)
             (fst (prepare_dataset five_disk (\<lambda>i. 0) ''/data'' float_0_6))) = 3 \<and>
   float_0_6 = Finite 5404319552844595 (- 53) \<and>
   \<bar>float_val 5404319552844595 (- 53) - 6 / 10\<bar> < 1 / 2 ^ 54 \<and>
   \<lfloor>real 5 * float_val 5404319552844595 (- 53)\<rfloor> = 2 \<and>
   split_index 50 float_0_58 = Inr 28 \<and>
   float_0_58 = Finite 5224175567749775 (- 53) \<and>
   \<bar>float_val 5224175567749775 (- 53) - 58 / 100\<bar> < 1 / 2 ^ 54 \<and>
   \<lfloor>real 50 * (58 / 100)\<rfloor> = 29 \<and>
   filter is_image_name (listdir bracket_disk (listed_dir ''/d[1]'')) = [''a.jpg''] \<and>
   prepare_dataset bracket_disk (\<lambda>i. 0) ''/d[1]'' float_1 =
     ([Makedirs ''/srv/app/dataset/images/train'', Makedirs ''/srv/app/dataset/images/val'',
       Makedirs ''/srv/app/dataset/labels/train'', Makedirs ''/srv/app/dataset/labels/val'',
       Print ''Dataset prepared: 0 training images, 0 validation images''], None) \<and>
   filter is_image_name (listdir folder_disk (listed_dir ''/data'')) = [''a.jpg'', ''b.png''] \<and>
   prepare_dataset folder_disk (\<lambda>i. i) ''/data'' float_0_8 =
     ([Makedirs ''/srv/app/dataset/images/train'', Makedirs ''/srv/app/dataset/images/val'',
       Makedirs ''/srv/app/dataset/labels/train'', Makedirs ''/srv/app/dataset/labels/val''],
      Some IsADirectoryError) \<and>
   split_index (2 ^ 53 + 1) float_1 = Inr (2 ^ 53)"
proof -
  have a: "filter is_image_name (listdir demo_disk (listed_dir ''/data'')) =
             [''a.jpg'', ''b.png'', ''c.jpeg'']"
    by code_simp
  have b: "prepare_dataset demo_disk (\<lambda>i. 0) ''/data'' float_2 =
     ([Makedirs ''/srv/app/dataset/images/train'', Makedirs ''/srv/app/dataset/images/val'',
       Makedirs ''/srv/app/dataset/labels/train'', Makedirs ''/srv/app/dataset/labels/val'',
       Copy ''/data/c.jpeg'' ''/srv/app/dataset/images/train/c.jpeg'',
       Copy ''/data/b.png'' ''/srv/app/dataset/images/train/b.png'',
       Copy ''/data/a.jpg'' ''/srv/app/dataset/images/train/a.jpg'',
       Copy ''/data/a.txt'' ''/srv/app/dataset/labels/train/a.txt'',
       Print ''Dataset prepared: 3 training images, 0 validation images''], None)"
    by code_simp
  have c: "float_2 = Finite 2 0" by (simp add: float_2_def)
  have d: "\<lfloor>real 3 * float_val 2 0\<rfloor> = 6" by (simp add: float_val_def)
  have e: "listdir hidden_disk (listed_dir ''/data'') = [''.h.jpg'']"
    by code_simp
  have f: "os_path_splitext ''.h.jpg'' = (''.h'', ''.jpg'')"
    by code_simp
  have g: "prepare_dataset hidden_disk (\<lambda>i. 0) ''/data'' float_1 =
     ([Makedirs ''/srv/app/dataset/images/train'', Makedirs ''/srv/app/dataset/images/val'',
       Makedirs ''/srv/app/dataset/labels/train'', Makedirs ''/srv/app/dataset/labels/val'',
       Print ''Dataset prepared: 0 training images, 0 validation images''], None)"
    by code_simp
  have h: "length (filter is_image_name (listdir five_disk (listed_dir ''/data''))) = 5"
    by code_simp
  have i: "snd (prepare_dataset five_disk (\<lambda>i. 0) ''/data'' float_0_6) = None"
    by code_simp
  have j: "length (copies_into (train_img_dir five_disk)
             (fst (prepare_dataset five_disk (\<lambda>i. 0) ''/data'' float_0_6))) = 3"
    by code_simp
  have k: "float_0_6 = Finite 5404319552844595 (- 53)" by (simp add: float_0_6_def)
  have l: "\<bar>float_val 5404319552844595 (- 53) - 6 / 10\<bar> < 1 / 2 ^ 54"
    by (simp add: float_val_def)
  have m: "\<lfloor>real 5 * float_val 5404319552844595 (- 53)\<rfloor> = 2"
    by (simp add: float_val_def)
  have n: "split_index 50 float_0_58 = Inr 28" by code_simp
  have o: "float_0_58 = Finite 5224175567749775 (- 53)" by (simp add: float_0_58_def)
  have p: "\<bar>float_val 5224175567749775 (- 53) - 58 / 100\<bar> < 1 / 2 ^ 54"
    by (simp add: float_val_def)
  have q: "\<lfloor>real 50 * (58 / 100)\<rfloor> = 29" by simp
  have r: "filter is_image_name (listdir bracket_disk (listed_dir ''/d[1]'')) = [''a.jpg'']"
    by code_simp
  have s: "prepare_dataset bracket_disk (\<lambda>i. 0) ''/d[1]'' float_1 =
     ([Makedirs ''/srv/app/dataset/images/train'', Makedirs ''/srv/app/dataset/images/val'',
       Makedirs ''/srv/app/dataset/labels/train'', Makedirs ''/srv/app/dataset/labels/val'',
       Print ''Dataset prepared: 0 training images, 0 validation images''], None)"
    by code_simp
  have t: "filter is_image_name (listdir folder_disk (listed_dir ''/data'')) = [''a.jpg'', ''b.png'']"
    by code_simp
  have u: "prepare_dataset folder_disk (\<lambda>i. i) ''/data'' float_0_8 =
     ([Makedirs ''/srv/app/dataset/images/train'', Makedirs ''/srv/app/dataset/images/val'',
       Makedirs ''/srv/app/dataset/labels/train'', Makedirs ''/srv/app/dataset/labels/val''],
      Some IsADirectoryError)"
    by code_simp
  have v: "split_index (2 ^ 53 + 1) float_1 = Inr (2 ^ 53)" by code_simp
  show ?thesis by (intro conjI a b c d e f g h i j k l m n o p q r s t u v)
qed

theorem prepare_dataset_split_witness:
  "snd (prepare_dataset demo_disk (\<lambda>i. 0) ''/data'' (Finite 3602879701896397 (- 52))) = None \<and>
   0 \<le> float_val 3602879701896397 (- 52) \<and> float_val 3602879701896397 (- 52) \<le> 1 \<and>
   length (image_files_of demo_disk ''/data'') < 2 ^ 53 \<and>
   \<not> has_magic ''/data'' \<and>
   length (image_files_of demo_disk ''/data'') = 3 \<and>
   split_index 3 (Finite 3602879701896397 (- 52)) =
     Inr (int (length (copies_into (train_img_dir demo_disk)
       (fst (prepare_dataset demo_disk (\<lambda>i. 0) ''/data'' (Finite 3602879701896397 (- 52))))))) \<and>
   length (copies_into (val_img_dir demo_disk)
       (fst (prepare_dataset demo_disk (\<lambda>i. 0) ''/data'' (Finite 3602879701896397 (- 52))))) =
     3 - length (copies_into (train_img_dir demo_disk)
       (fst (prepare_dataset demo_disk (\<lambda>i. 0) ''/data'' (Finite 3602879701896397 (- 52))))) \<and>
   copies_into (val_label_dir demo_disk)
       (fst (prepare_dataset demo_disk (\<lambda>i. 0) ''/data'' (Finite 3602879701896397 (- 52)))) =
     map (label_path_of ''/data'')
       (filter (\<lambda>p. path_exists demo_disk (label_path_of ''/data'' p))
          (copies_into (val_img_dir demo_disk)
             (fst (prepare_dataset demo_disk (\<lambda>i. 0) ''/data'' (Finite 3602879701896397 (- 52))))))"
proof -
  have ok: "snd (prepare_dataset demo_disk (\<lambda>i. 0) ''/data'' (Finite 3602879701896397 (- 52))) = None"
    by code_simp
  have v0: "0 \<le> float_val 3602879701896397 (- 52)" by (simp add: float_val_def)
  have v1: "float_val 3602879701896397 (- 52) \<le> 1" by (simp add: float_val_def)
  have m: "length (image_files_of demo_disk ''/data'') = 3" by code_simp
  have small: "length (image_files_of demo_disk ''/data'') < 2 ^ 53" unfolding m by simp
  have plain: "\<not> has_magic ''/data''" by code_simp
  have th: "split_index 3 (Finite 3602879701896397 (- 52)) =
     Inr (int (length (copies_into (train_img_dir demo_disk)
       (fst (prepare_dataset demo_disk (\<lambda>i. 0) ''/data'' (Finite 3602879701896397 (- 52))))))) \<and>
   length (copies_into (val_img_dir demo_disk)
       (fst (prepare_dataset demo_disk (\<lambda>i. 0) ''/data'' (Finite 3602879701896397 (- 52))))) =
     3 - length (copies_into (train_img_dir demo_disk)
       (fst (prepare_dataset demo_disk (\<lambda>i. 0) ''/data'' (Finite 3602879701896397 (- 52))))) \<and>
   copies_into (val_label_dir demo_disk)
       (fst (prepare_dataset demo_disk (\<lambda>i. 0) ''/data'' (Finite 3602879701896397 (- 52)))) =
     map (label_path_of ''/data'')
       (filter (\<lambda>p. path_exists demo_disk (label_path_of ''/data'' p))
          (copies_into (val_img_dir demo_disk)
             (fst (prepare_dataset demo_disk (\<lambda>i. 0) ''/data'' (Finite 3602879701896397 (- 52))))))"
    using prepare_dataset_split[OF ok v0 v1 small plain]
    unfolding Let_def m by simp
  show ?thesis
    by (intro conjI ok v0 v1 small plain m conjunct1[OF th] conjunct1[OF conjunct2[OF th]]
          conjunct2[OF conjunct2[OF th]])
qed

end
